theory Spec2Isabelle
  imports Complex_Main "HOL-Library.Sublist"
begin

section \<open>Smart Canvas: the operation model of SmartCanvas.tsx\<close>

text \<open>
  The component keeps its document in React state. The model below is a record of that
  state and one function per event handler, each taking the state and returning the new
  one; the handlers run one after the other, every handler seeing the state its
  predecessor left. JavaScript numbers are IEEE 754 doubles. The geometry functions
  (\<open>simplifyRDP\<close>, \<open>constrainWithShift\<close>) are modelled with the rounding of every arithmetic
  result explicit; elsewhere numbers are real numbers. NaN and the infinities are outside
  the model.

  Ops are JavaScript objects held by reference: the document \<open>ops\<close>, the redo stack and
  \<open>currentStroke\<close> may all point to the same StrokeOp, whose \<open>points\<close> array is changed in
  place while a stroke is drawn. The model therefore keeps an explicit store \<open>heap\<close> from
  references to Ops, and the document and the redo stack are lists of references.
\<close>

subsection \<open>Types and constants\<close>

datatype Tool = PEN | HIGHLIGHTER | ERASER | LINE | RECT | ELLIPSE | TEXT | SELECT

record Point =
  pt_x :: real
  pt_y :: real
  pt_p :: "real option"

datatype ShapeKind = ShLine | ShRect | ShEllipse

record StrokeOp =
  s_tool :: Tool
  s_color :: string
  s_size :: real
  s_alpha :: real
  s_composite :: string
  s_points :: "Point list"
  s_smooth :: bool
  s_brushType :: string
  s_layer :: int

record ShapeOp =
  sh_shape :: ShapeKind
  sh_color :: string
  sh_size :: real
  sh_alpha :: real
  sh_composite :: string
  sh_x0 :: real
  sh_y0 :: real
  sh_x1 :: real
  sh_y1 :: real
  sh_layer :: int

record TextOp =
  t_text :: string
  t_x :: real
  t_y :: real
  t_color :: string
  t_size :: real
  t_font :: string
  t_layer :: int

text \<open>The decoded bitmap of an ImageOp is owned by the browser; the model keeps its
  natural width and height, which is all the component reads from it.\<close>

record HTMLImageElement =
  img_width :: real
  img_height :: real

record ImageOp =
  i_img :: HTMLImageElement
  i_x :: real
  i_y :: real
  i_w :: real
  i_h :: real
  i_layer :: int

datatype Op = Stroke StrokeOp | Shape ShapeOp | Image ImageOp | Text TextOp

fun op_layer :: "Op \<Rightarrow> int" where
  "op_layer (Stroke s) = s_layer s"
| "op_layer (Shape s) = sh_layer s"
| "op_layer (Image i) = i_layer i"
| "op_layer (Text t) = t_layer t"

record Layer =
  l_id :: int
  l_name :: string
  l_visible :: bool
  l_opacity :: real

subsection \<open>The component state\<close>

type_synonym ref = nat

record TextEditor =
  te_visible :: bool
  te_x :: real
  te_y :: real
  te_value :: string

text \<open>The canvas element: its backing-store size and its bounding client rectangle.\<close>

record Canvas =
  cv_width :: real
  cv_height :: real
  rect_left :: real
  rect_top :: real
  rect_width :: real
  rect_height :: real

record State =
  heap :: "ref \<rightharpoonup> Op"
  nextRef :: ref
  ops :: "ref list"
  redo :: "ref list"
  layers :: "Layer list"
  currentLayer :: int
  tool :: Tool
  color :: string
  size' :: real
  alpha :: real
  smooth :: bool
  brushType :: string
  shapeAssist :: bool
  isDrawing :: bool
  currentStroke :: "ref option"
  currentShape :: "ShapeOp option"
  shiftKey :: bool
  textEditor :: TextEditor
  canvas :: "Canvas option"
  alerts :: "string list"

text \<open>Creating an object: a reference that no list holds yet.\<close>

definition alloc :: "Op \<Rightarrow> State \<Rightarrow> ref \<times> State" where
  "alloc opv s = (nextRef s, s\<lparr>heap := (heap s)(nextRef s \<mapsto> opv), nextRef := Suc (nextRef s)\<rparr>)"

text \<open>The document as values: what the references of \<open>ops\<close> point to.\<close>

definition document :: "State \<Rightarrow> Op option list" where
  "document s = map (heap s) (ops s)"

definition redoStack :: "State \<Rightarrow> Op option list" where
  "redoStack s = map (heap s) (redo s)"

text \<open>The initial values of the \<open>useState\<close> hooks; the canvas is not mounted yet.\<close>

definition initialState :: State where
  "initialState =
     \<lparr>heap = Map.empty, nextRef = 0, ops = [], redo = [],
      layers = [\<lparr>l_id = 0, l_name = ''Layer 1'', l_visible = True, l_opacity = 1\<rparr>],
      currentLayer = 0, tool = PEN, color = ''#164e63'', size' = 4, alpha = 1,
      smooth = True, brushType = ''smooth'', shapeAssist = True, isDrawing = False,
      currentStroke = None, currentShape = None, shiftKey = False,
      textEditor = \<lparr>te_visible = False, te_x = 0, te_y = 0, te_value = []\<rparr>,
      canvas = None, alerts = []\<rparr>"

subsection \<open>Undo and redo\<close>

text \<open>\<open>handleUndo\<close>: \<open>prev.slice(0, prev.length - 1)\<close> is the document without its last
  element, and \<open>prev[prev.length - 1]\<close> goes to the front of the redo stack.\<close>

definition handleUndo :: "State \<Rightarrow> State" where
  "handleUndo s =
     (let prev = ops s in
      if length prev = 0 then s
      else s\<lparr>ops := take (length prev - 1) prev,
             redo := (prev ! (length prev - 1)) # redo s\<rparr>)"

definition handleRedo :: "State \<Rightarrow> State" where
  "handleRedo s =
     (case redo s of
        [] \<Rightarrow> s
      | first # rest \<Rightarrow> s\<lparr>ops := ops s @ [first], redo := rest\<rparr>)"

subsection \<open>Utilities\<close>

definition clamp :: "real \<Rightarrow> real \<Rightarrow> real \<Rightarrow> real" where
  "clamp n a b = max a (min b n)"

subsection \<open>Double arithmetic\<close>

text \<open>The result of \<open>+\<close>, \<open>-\<close>, \<open>*\<close> and \<open>/\<close> on doubles is the exact result rounded to the
  nearest double, ties to the even significand: \<open>double_round\<close>. A double other than 0 in
  the binade \<open>2\<^sup>e \<le> \<bar>x\<bar> < 2\<^sup>e\<^sup>+\<^sup>1\<close> is a multiple of \<open>2\<^sup>e\<^sup>-\<^sup>5\<^sup>2\<close>, and of \<open>2\<^sup>-\<^sup>1\<^sup>0\<^sup>7\<^sup>4\<close> below
  \<open>2\<^sup>-\<^sup>1\<^sup>0\<^sup>2\<^sup>2\<close>. A result of magnitude \<open>2\<^sup>1\<^sup>0\<^sup>2\<^sup>4\<close> or more is an infinity in the source; such
  results are outside the model. A number literal of the source, such as \<open>0.9\<close>, is the
  double nearest to it.

  The geometry functions take the rounding as a parameter \<open>fl\<close>: with \<open>double_round\<close> they
  compute as the source does, with \<open>id\<close> they compute in exact arithmetic.\<close>

definition round_even :: "real \<Rightarrow> int" where
  "round_even r =
     (let f = \<lfloor>r\<rfloor>; d = r - of_int f
      in if d < 1 / 2 then f else if 1 / 2 < d then f + 1 else if even f then f else f + 1)"

definition double_round :: "real \<Rightarrow> real" where
  "double_round x =
     (if x = 0 then 0
      else let e = max \<lfloor>log 2 \<bar>x\<bar>\<rfloor> (- 1022); u = 2 powr (of_int e - 52)
           in of_int (round_even (x / u)) * u)"

subsection \<open>Geometry: Ramer-Douglas-Peucker simplification\<close>

definition sq :: "(real \<Rightarrow> real) \<Rightarrow> real \<Rightarrow> real" where
  "sq fl n = fl (n * n)"

definition distSqToSegment :: "(real \<Rightarrow> real) \<Rightarrow> Point \<Rightarrow> Point \<Rightarrow> Point \<Rightarrow> real" where
  "distSqToSegment fl p a b =
     (let vx = fl (pt_x b - pt_x a); vy = fl (pt_y b - pt_y a);
          wx = fl (pt_x p - pt_x a); wy = fl (pt_y p - pt_y a);
          c1 = fl (fl (vx * wx) + fl (vy * wy))
      in if c1 \<le> 0 then fl (sq fl (fl (pt_x p - pt_x a)) + sq fl (fl (pt_y p - pt_y a)))
         else let c2 = fl (fl (vx * vx) + fl (vy * vy))
              in if c2 \<le> c1 then fl (sq fl (fl (pt_x p - pt_x b)) + sq fl (fl (pt_y p - pt_y b)))
                 else let t = fl (c1 / c2);
                          px = fl (pt_x a + fl (t * vx)); py = fl (pt_y a + fl (t * vy))
                      in fl (sq fl (fl (pt_x p - px)) + sq fl (fl (pt_y p - py))))"

text \<open>The body of the \<open>for\<close> loop of \<open>rdp\<close>, on the pair \<open>(dmax, idx)\<close>; the loop runs it
  for \<open>i = 1, ..., end - 1\<close>.\<close>

definition rdp_step ::
  "(real \<Rightarrow> real) \<Rightarrow> Point list \<Rightarrow> nat \<Rightarrow> real \<times> nat \<Rightarrow> nat \<Rightarrow> real \<times> nat" where
  "rdp_step fl pts end acc i =
     (let d = distSqToSegment fl (pts ! i) (pts ! 0) (pts ! end)
      in if d > fst acc then (d, i) else acc)"

definition rdp_scan :: "(real \<Rightarrow> real) \<Rightarrow> Point list \<Rightarrow> real \<times> nat" where
  "rdp_scan fl pts = foldl (rdp_step fl pts (length pts - 1)) (0, 0) [1 ..< length pts - 1]"

text \<open>\<open>rdp\<close> recurses on \<open>pts.slice(0, idx + 1)\<close> and \<open>pts.slice(idx, end + 1)\<close> and joins
  the results with \<open>rec1.slice(0, -1).concat(rec2)\<close>. With a negative \<open>epsSq\<close> the source
  recurses for ever, so the model is a partial function: \<open>None\<close> is "does not return".
  \<open>simplifyRDP\<close> calls it on three points or more, and the recursive calls on two or more.
  The default \<open>epsilon = 0.8\<close> of \<open>simplifyRDP\<close> is never used: its one caller passes 0.9.\<close>

partial_function (option) rdp :: "(real \<Rightarrow> real) \<Rightarrow> Point list \<Rightarrow> real \<Rightarrow> Point list option" where
  "rdp fl pts epsSq =
     (if fst (rdp_scan fl pts) > epsSq then
        Option.bind (rdp fl (take (snd (rdp_scan fl pts) + 1) pts) epsSq) (\<lambda>rec1.
        Option.bind (rdp fl (drop (snd (rdp_scan fl pts)) (take (length pts - 1 + 1) pts)) epsSq)
          (\<lambda>rec2. Some (butlast rec1 @ rec2)))
      else Some [pts ! 0, pts ! (length pts - 1)])"

definition simplifyRDP :: "(real \<Rightarrow> real) \<Rightarrow> Point list \<Rightarrow> real \<Rightarrow> Point list option" where
  "simplifyRDP fl points epsilon =
     (if length points < 3 then Some points else rdp fl points (fl (epsilon * epsilon)))"

subsection \<open>Geometry: the shape constraint\<close>

text \<open>\<open>Math.atan2(y, x)\<close> on the reals (signed zeros are outside the model).\<close>

definition atan2 :: "real \<Rightarrow> real \<Rightarrow> real" where
  "atan2 y x =
     (if x > 0 then arctan (y / x)
      else if x < 0 then (if y \<ge> 0 then arctan (y / x) + pi else arctan (y / x) - pi)
      else if y > 0 then pi / 2
      else if y < 0 then - pi / 2
      else 0)"

definition hypot :: "real \<Rightarrow> real \<Rightarrow> real" where
  "hypot a b = sqrt (a * a + b * b)"

text \<open>The arithmetic \<open>constrainWithShift\<close> computes with: the rounding \<open>fl\<close> of the results
  of \<open>+\<close>, \<open>-\<close>, \<open>*\<close> and \<open>/\<close>, the constant \<open>Math.PI\<close>, and the functions \<open>Math.atan2\<close>,
  \<open>Math.sin\<close>, \<open>Math.cos\<close> and \<open>Math.hypot\<close>. \<open>Math.abs\<close>, \<open>Math.min\<close> and \<open>Math.sign\<close> are
  exact on doubles.\<close>

record Arith =
  ar_fl :: "real \<Rightarrow> real"
  ar_PI :: real
  ar_atan2 :: "real \<Rightarrow> real \<Rightarrow> real"
  ar_sin :: "real \<Rightarrow> real"
  ar_cos :: "real \<Rightarrow> real"
  ar_hypot :: "real \<Rightarrow> real \<Rightarrow> real"

text \<open>Exact arithmetic: no rounding, and the functions of real analysis.\<close>

definition exactArith :: Arith where
  "exactArith =
     \<lparr>ar_fl = id, ar_PI = pi, ar_atan2 = atan2, ar_sin = sin, ar_cos = cos, ar_hypot = hypot\<rparr>"

text \<open>Double arithmetic, as the source computes. \<open>Math.PI\<close> is the double nearest to \<open>\<pi>\<close>.
  The language leaves the accuracy of \<open>Math.atan2\<close>, \<open>Math.sin\<close>, \<open>Math.cos\<close> and
  \<open>Math.hypot\<close> to the implementation; they are taken here as the exact functions rounded
  to the nearest double. The rect and ellipse branch of \<open>constrainWithShift\<close> uses none of
  them.\<close>

definition doubleArith :: Arith where
  "doubleArith =
     \<lparr>ar_fl = double_round, ar_PI = double_round pi,
      ar_atan2 = (\<lambda>y x. double_round (atan2 y x)),
      ar_sin = (\<lambda>x. double_round (sin x)),
      ar_cos = (\<lambda>x. double_round (cos x)),
      ar_hypot = (\<lambda>a b. double_round (hypot a b))\<rparr>"

definition snaps :: "Arith \<Rightarrow> real list" where
  "snaps ar =
     (let fl = ar_fl ar; PI = ar_PI ar
      in [0, fl (PI / 4), fl (PI / 2), fl (fl (3 * PI) / 4), PI,
          fl (- PI / 4), fl (- PI / 2), fl (fl (- 3 * PI) / 4)])"

text \<open>The angular distance the snapping loop measures between \<open>angle\<close> and a snap \<open>a\<close>.\<close>

definition angDist :: "Arith \<Rightarrow> real \<Rightarrow> real \<Rightarrow> real" where
  "angDist ar angle a =
     \<bar>ar_atan2 ar (ar_sin ar (ar_fl ar (angle - a))) (ar_cos ar (ar_fl ar (angle - a)))\<bar>"

text \<open>The body of the snapping loop on the pair \<open>(best, min)\<close>; \<open>None\<close> is
  \<open>Number.POSITIVE_INFINITY\<close>.\<close>

definition snap_step ::
  "Arith \<Rightarrow> real \<Rightarrow> real \<times> real option \<Rightarrow> real \<Rightarrow> real \<times> real option" where
  "snap_step ar angle acc a =
     (let d = angDist ar angle a
      in if (case snd acc of None \<Rightarrow> True | Some m \<Rightarrow> d < m) then (a, Some d) else acc)"

definition snap_best :: "Arith \<Rightarrow> real \<Rightarrow> real" where
  "snap_best ar angle = fst (foldl (snap_step ar angle) (snaps ar ! 0, None) (snaps ar))"

definition constrainWithShift :: "Arith \<Rightarrow> ShapeOp \<Rightarrow> bool \<Rightarrow> ShapeOp" where
  "constrainWithShift ar shape shift =
     (if \<not> shift then shape
      else let fl = ar_fl ar;
               x0 = sh_x0 shape; y0 = sh_y0 shape; x1 = sh_x1 shape; y1 = sh_y1 shape
           in if sh_shape shape = ShLine then
                (let dx = fl (x1 - x0); dy = fl (y1 - y0);
                     angle = ar_atan2 ar dy dx;
                     best = snap_best ar angle;
                     len = ar_hypot ar dx dy
                 in shape\<lparr>sh_x1 := fl (x0 + fl (len * ar_cos ar best)),
                          sh_y1 := fl (y0 + fl (len * ar_sin ar best))\<rparr>)
              else
                (let w = fl (x1 - x0); h = fl (y1 - y0);
                     sideX = fl (sgn w * min \<bar>w\<bar> \<bar>h\<bar>);
                     sideY = fl (sgn h * min \<bar>w\<bar> \<bar>h\<bar>)
                 in shape\<lparr>sh_x1 := fl (x0 + sideX), sh_y1 := fl (y0 + sideY)\<rparr>))"

text \<open>The same function on objects. \<open>if (!shift) return shape\<close> returns the reference it
  was given. Otherwise the object literal \<open>{ ...shape, x1: \<dots>, y1: \<dots> }\<close> creates a new
  object from the fields of \<open>shape\<close>; no field of \<open>shape\<close> is assigned to. The result is
  \<open>None\<close> when \<open>r\<close> does not refer to a ShapeOp.\<close>

definition constrainWithShiftRef ::
  "Arith \<Rightarrow> ref \<Rightarrow> bool \<Rightarrow> State \<Rightarrow> (ref \<times> State) option" where
  "constrainWithShiftRef ar r shift s =
     (case heap s r of
        Some (Shape shape) \<Rightarrow>
          Some (if \<not> shift then (r, s) else alloc (Shape (constrainWithShift ar shape shift)) s)
      | _ \<Rightarrow> None)"

text \<open>The rect and ellipse branch rounds six results: the two differences, the two
  signed sides and the two sums. \<open>box_unrounded fl shape\<close> says that for \<open>shape\<close> the rounding
  \<open>fl\<close> changes none of them.\<close>

definition box_unrounded :: "(real \<Rightarrow> real) \<Rightarrow> ShapeOp \<Rightarrow> bool" where
  "box_unrounded fl shape =
     (let w = sh_x1 shape - sh_x0 shape; h = sh_y1 shape - sh_y0 shape;
          sideX = sgn w * min \<bar>w\<bar> \<bar>h\<bar>; sideY = sgn h * min \<bar>w\<bar> \<bar>h\<bar>
      in fl w = w \<and> fl h = h \<and> fl sideX = sideX \<and> fl sideY = sideY
         \<and> fl (sh_x0 shape + sideX) = sh_x0 shape + sideX
         \<and> fl (sh_y0 shape + sideY) = sh_y0 shape + sideY)"

subsection \<open>Rendering\<close>

text \<open>The 2D context carries the alpha and the blend mode that every drawing call uses.
  \<open>painted\<close> records, for each call that puts an Op on the surface (\<open>drawImage\<close>,
  \<open>fillText\<close>, \<open>stroke\<close>, \<open>strokeRect\<close>), the alpha and the blend mode in force at the
  call; paths, widths and colours are not modelled. An assignment to \<open>globalAlpha\<close> is
  stored as written.\<close>

record Paint =
  pa_alpha :: real
  pa_composite :: string
  pa_op :: Op

record Ctx =
  globalAlpha :: real
  globalCompositeOperation :: string
  painted :: "Paint list"

definition paint :: "Op \<Rightarrow> Ctx \<Rightarrow> Ctx" where
  "paint opv ctx =
     ctx\<lparr>painted := painted ctx @
            [\<lparr>pa_alpha = globalAlpha ctx, pa_composite = globalCompositeOperation ctx,
              pa_op = opv\<rparr>]\<rparr>"

text \<open>\<open>drawSmoothStroke\<close> returns before drawing when there are fewer than two points.\<close>

definition drawSmoothStroke :: "StrokeOp \<Rightarrow> Ctx \<Rightarrow> Ctx" where
  "drawSmoothStroke st ctx = (if length (s_points st) < 2 then ctx else paint (Stroke st) ctx)"

text \<open>The body of the inner loop of \<open>renderAll\<close>, for one Op of one layer.\<close>

fun renderOp :: "Layer \<Rightarrow> Ctx \<Rightarrow> Op \<Rightarrow> Ctx" where
  "renderOp layer ctx (Image i) =
     paint (Image i)
       (ctx\<lparr>globalCompositeOperation := ''source-over'', globalAlpha := l_opacity layer\<rparr>)"
| "renderOp layer ctx (Text t) =
     paint (Text t)
       (ctx\<lparr>globalCompositeOperation := ''source-over'', globalAlpha := l_opacity layer\<rparr>)"
| "renderOp layer ctx (Stroke st) =
     (let ctx1 = ctx\<lparr>globalCompositeOperation := s_composite st,
                     globalAlpha := s_alpha st * l_opacity layer\<rparr>
      in if length (s_points st) = 0 then ctx1
         else if s_smooth st then paint (Stroke st) ctx1
         else drawSmoothStroke st ctx1)"
| "renderOp layer ctx (Shape sh) =
     paint (Shape sh)
       (ctx\<lparr>globalCompositeOperation := sh_composite sh,
            globalAlpha := sh_alpha sh * l_opacity layer\<rparr>)"

text \<open>The Ops the document's references point to, in document order.\<close>

definition opValues :: "State \<Rightarrow> Op list" where
  "opValues s = List.map_filter (heap s) (ops s)"

definition renderLayer :: "State \<Rightarrow> Ctx \<Rightarrow> Layer \<Rightarrow> Ctx" where
  "renderLayer s ctx layer =
     (if \<not> l_visible layer then ctx
      else foldl (renderOp layer) (ctx\<lparr>globalAlpha := l_opacity layer\<rparr>)
             (filter (\<lambda>opv. op_layer opv = l_id layer) (opValues s)))"

text \<open>\<open>renderAll\<close> paints the background over the whole surface, which leaves nothing of
  what was painted before, and then the layers in order.\<close>

definition renderAll :: "State \<Rightarrow> Ctx \<Rightarrow> Ctx" where
  "renderAll s ctx =
     (case canvas s of
        None \<Rightarrow> ctx
      | Some c \<Rightarrow> foldl (renderLayer s) (ctx\<lparr>painted := []\<rparr>) (layers s))"

subsection \<open>Pointer events\<close>

record PointerEvent =
  button :: int
  clientX :: real
  clientY :: real
  pressure :: real

text \<open>\<open>e.pressure || 0.5\<close> takes 0.5 when the pressure is 0.\<close>

definition getPos :: "PointerEvent \<Rightarrow> State \<Rightarrow> Point" where
  "getPos e s =
     (case canvas s of
        None \<Rightarrow> \<lparr>pt_x = 0, pt_y = 0, pt_p = Some (1 / 2)\<rparr>
      | Some c \<Rightarrow>
          \<lparr>pt_x = (clientX e - rect_left c) * (cv_width c / rect_width c),
           pt_y = (clientY e - rect_top c) * (cv_height c / rect_height c),
           pt_p = Some (clamp (if pressure e = 0 then 1 / 2 else pressure e) (5 / 100) 1)\<rparr>)"

definition FREEHAND_TOOLS :: "Tool list" where
  "FREEHAND_TOOLS = [PEN, HIGHLIGHTER, ERASER]"

definition pointerDown :: "PointerEvent \<Rightarrow> State \<Rightarrow> State" where
  "pointerDown e s =
     (if button e \<noteq> 0 then s
      else let s1 = s\<lparr>redo := []\<rparr>; pos = getPos e s
           in if tool s = TEXT then
                s1\<lparr>textEditor := \<lparr>te_visible = True, te_x = pt_x pos, te_y = pt_y pos,
                                   te_value = []\<rparr>\<rparr>
              else let s2 = s1\<lparr>isDrawing := True\<rparr>
                   in if tool s \<in> set FREEHAND_TOOLS then
                        (let stroke = \<lparr>s_tool = tool s,
                                       s_color = (if tool s = ERASER then ''#000000'' else color s),
                                       s_size = size' s,
                                       s_alpha = (if tool s = HIGHLIGHTER then 3 / 10 else alpha s),
                                       s_composite = (if tool s = ERASER then ''destination-out''
                                                      else ''source-over''),
                                       s_points = [pos],
                                       s_smooth = smooth s,
                                       s_brushType = brushType s,
                                       s_layer = currentLayer s\<rparr>;
                             (r, s3) = alloc (Stroke stroke) s2
                         in s3\<lparr>currentStroke := Some r, ops := ops s3 @ [r]\<rparr>)
                      else if tool s \<noteq> SELECT then
                        (let shapeName = (if tool s = LINE then ShLine
                                          else if tool s = RECT then ShRect else ShEllipse);
                             shape = \<lparr>sh_shape = shapeName, sh_color = color s,
                                      sh_size = size' s, sh_alpha = alpha s,
                                      sh_composite = ''source-over'',
                                      sh_x0 = pt_x pos, sh_y0 = pt_y pos,
                                      sh_x1 = pt_x pos, sh_y1 = pt_y pos,
                                      sh_layer = currentLayer s\<rparr>
                         in s2\<lparr>currentShape := Some shape\<rparr>)
                      else s2)"

text \<open>\<open>pointerMove\<close> pushes the sample onto the points of the last Op of the document when
  that Op is a stroke. During a shape gesture it only draws the provisional outline on the
  preview canvas, which is not part of this model.\<close>

definition pointerMove :: "PointerEvent \<Rightarrow> State \<Rightarrow> State" where
  "pointerMove e s =
     (if \<not> isDrawing s then s
      else let pos = getPos e s
           in if currentStroke s \<noteq> None then
                (if ops s = [] then s
                 else case heap s (last (ops s)) of
                        Some (Stroke st) \<Rightarrow>
                          s\<lparr>heap := (heap s)(last (ops s) \<mapsto>
                                       Stroke (st\<lparr>s_points := s_points st @ [pos]\<rparr>))\<rparr>
                      | _ \<Rightarrow> s)
              else s)"

text \<open>\<open>pointerUp\<close> is also the handler of pointer-leave and pointer-cancel. It reads the
  points of the object \<open>currentStroke\<close> refers to and writes the simplified points back
  when that object is still the last Op of the document (\<open>last === stroke\<close>). The result
  is \<open>None\<close> when the simplifier does not return. The simplifier runs in double arithmetic
  with the literal \<open>0.9\<close>, and so does the shape constraint.\<close>

definition pointerUp :: "State \<Rightarrow> State option" where
  "pointerUp s =
     (let s1 = s\<lparr>isDrawing := False\<rparr>
      in case currentStroke s of
           Some r \<Rightarrow>
             (let s2 = s1\<lparr>currentStroke := None\<rparr>
              in case heap s r of
                   Some (Stroke stroke) \<Rightarrow>
                     if s_smooth stroke then
                       (case simplifyRDP double_round (s_points stroke) (double_round (9 / 10)) of
                          None \<Rightarrow> None
                        | Some simplified \<Rightarrow>
                            Some (if ops s \<noteq> [] \<and> last (ops s) = r
                                  then s2\<lparr>heap := (heap s)(r \<mapsto>
                                            Stroke (stroke\<lparr>s_points := simplified\<rparr>))\<rparr>
                                  else s2))
                     else Some s2
                 | _ \<Rightarrow> Some s2)
         | None \<Rightarrow>
             (case currentShape s of
                Some base \<Rightarrow>
                  (let sh = (if shapeAssist s then constrainWithShift doubleArith base (shiftKey s)
                             else base);
                       (r, s2) = alloc (Shape sh) s1
                   in Some (s2\<lparr>ops := ops s2 @ [r], currentShape := None\<rparr>))
              | None \<Rightarrow> Some s1))"

subsection \<open>Text, load, image import, layers\<close>

definition is_space :: "char \<Rightarrow> bool" where
  "is_space c = (c \<in> set [CHR '' '', CHR 0x09, CHR 0x0A, CHR 0x0B, CHR 0x0C, CHR 0x0D])"

definition trim :: "string \<Rightarrow> string" where
  "trim v = rev (dropWhile is_space (rev (dropWhile is_space v)))"

definition commitText :: "string \<Rightarrow> State \<Rightarrow> State" where
  "commitText v s =
     (if trim v = [] then s\<lparr>textEditor := (textEditor s)\<lparr>te_visible := False, te_value := []\<rparr>\<rparr>
      else let opv = \<lparr>t_text = v, t_x = te_x (textEditor s), t_y = te_y (textEditor s),
                      t_color = color s, t_size = max 12 (size' s * 6),
                      t_font = ''Inter, ui-sans-serif, system-ui, -apple-system, Segoe UI, Roboto, sans-serif'',
                      t_layer = currentLayer s\<rparr>;
               (r, s1) = alloc (Text opv) s
           in s1\<lparr>ops := ops s1 @ [r],
                 textEditor := \<lparr>te_visible = False, te_x = 0, te_y = 0, te_value = []\<rparr>\<rparr>)"

text \<open>What \<open>JSON.parse\<close> makes of the file: a syntax error, a value that is not an array,
  or an array, whose elements the source takes to be Ops without looking at them.\<close>

datatype Parsed = SyntaxError | NotArray | Array "Op list"

fun allocAll :: "Op list \<Rightarrow> State \<Rightarrow> ref list \<times> State" where
  "allocAll [] s = ([], s)"
| "allocAll (opv # rest) s =
     (let (r, s1) = alloc opv s; (rs, s2) = allocAll rest s1 in (r # rs, s2))"

definition handleLoadJSON :: "Parsed \<Rightarrow> State \<Rightarrow> State" where
  "handleLoadJSON parsed s =
     (case parsed of
        Array loaded \<Rightarrow> (let (rs, s1) = allocAll loaded s in s1\<lparr>ops := rs, redo := []\<rparr>)
      | _ \<Rightarrow> s\<lparr>alerts := alerts s @ [''Invalid JSON file'']\<rparr>)"

text \<open>The \<open>onload\<close> callback of \<open>handleImageImport\<close>, once the image is decoded. Without a
  canvas, reading \<open>c.width\<close> throws and no state is set.\<close>

definition handleImageImport :: "HTMLImageElement \<Rightarrow> State \<Rightarrow> State" where
  "handleImageImport img s =
     (case canvas s of
        None \<Rightarrow> s
      | Some c \<Rightarrow>
          (let w = cv_width c; h = cv_height c;
               scale = min (min (w / img_width img) (h / img_height img)) 1;
               iw = img_width img * scale; ih = img_height img * scale;
               opv = \<lparr>i_img = img, i_x = (w - iw) / 2, i_y = (h - ih) / 2, i_w = iw, i_h = ih,
                      i_layer = currentLayer s\<rparr>;
               (r, s1) = alloc (Image opv) s
           in s1\<lparr>ops := ops s1 @ [r]\<rparr>))"

text \<open>\<open>handleClear\<close> asks for confirmation first; \<open>confirmed\<close> is the answer.\<close>

definition handleClear :: "bool \<Rightarrow> State \<Rightarrow> State" where
  "handleClear confirmed s = (if \<not> confirmed then s else s\<lparr>ops := [], redo := []\<rparr>)"

text \<open>The layer of the Op a reference points to.\<close>

definition ref_layer :: "State \<Rightarrow> ref \<Rightarrow> int option" where
  "ref_layer s r = map_option op_layer (heap s r)"

definition deleteLayer :: "int \<Rightarrow> State \<Rightarrow> State" where
  "deleteLayer lid s =
     (if length (layers s) \<le> 1 then s
      else s\<lparr>layers := filter (\<lambda>l. l_id l \<noteq> lid) (layers s),
             ops := filter (\<lambda>r. ref_layer s r \<noteq> Some lid) (ops s),
             currentLayer :=
               (if currentLayer s = lid then
                  (let remaining = filter (\<lambda>l. l_id l \<noteq> lid) (layers s)
                   in if length remaining > 0 then l_id (remaining ! 0) else 0)
                else currentLayer s)\<rparr>)"

subsection \<open>The compositing rule as the specification words it\<close>

text \<open>The alpha and the blend mode the specification asks for, per Op and layer: the
  Op's alpha times the layer's opacity and the Op's stored mode for strokes and shapes, the
  layer's opacity alone and normal blending for images and text.\<close>

fun spec_alpha :: "Layer \<Rightarrow> Op \<Rightarrow> real" where
  "spec_alpha layer (Stroke st) = s_alpha st * l_opacity layer"
| "spec_alpha layer (Shape sh) = sh_alpha sh * l_opacity layer"
| "spec_alpha layer (Image i) = l_opacity layer"
| "spec_alpha layer (Text t) = l_opacity layer"

fun spec_composite :: "Op \<Rightarrow> string" where
  "spec_composite (Stroke st) = s_composite st"
| "spec_composite (Shape sh) = sh_composite sh"
| "spec_composite (Image i) = ''source-over''"
| "spec_composite (Text t) = ''source-over''"

text \<open>The Ops that reach the surface: every Op but a stroke with no point, or a stroke
  that is not smooth with fewer than two points.\<close>

fun reaches_surface :: "Op \<Rightarrow> bool" where
  "reaches_surface (Stroke st) =
     (if s_smooth st then length (s_points st) \<ge> 1 else length (s_points st) \<ge> 2)"
| "reaches_surface _ = True"

definition spec_paints :: "Layer \<Rightarrow> Op \<Rightarrow> Paint list" where
  "spec_paints layer opv =
     (if reaches_surface opv
      then [\<lparr>pa_alpha = spec_alpha layer opv, pa_composite = spec_composite opv, pa_op = opv\<rparr>]
      else [])"

definition spec_layer_paints :: "State \<Rightarrow> Layer \<Rightarrow> Paint list" where
  "spec_layer_paints s layer =
     (if l_visible layer
      then concat (map (spec_paints layer) (filter (\<lambda>opv. op_layer opv = l_id layer) (opValues s)))
      else [])"

subsection \<open>The simplification bound as the specification words it\<close>

text \<open>The squared perpendicular distance from \<open>p\<close> to the line through \<open>a\<close> and \<open>b\<close>,
  in exact arithmetic. When \<open>a = b\<close> there is no such line, and the distance is the one from
  \<open>p\<close> to that point.\<close>

definition perpDistSq :: "Point \<Rightarrow> Point \<Rightarrow> Point \<Rightarrow> real" where
  "perpDistSq p a b =
     (let vx = pt_x b - pt_x a; vy = pt_y b - pt_y a;
          wx = pt_x p - pt_x a; wy = pt_y p - pt_y a
      in if vx * vx + vy * vy = 0 then wx * wx + wy * wy
         else (vx * wy - vy * wx)\<^sup>2 / (vx * vx + vy * vy))"

text \<open>A run is a stretch of consecutive original points that the simplified polyline
  replaces by one segment, from the first point of the run to its last. The points in
  between are the discarded ones; \<open>within_tolerance\<close> bounds their distance to the segment,
  as measured by \<open>dst\<close>.\<close>

definition within_tolerance ::
  "(Point \<Rightarrow> Point \<Rightarrow> Point \<Rightarrow> real) \<Rightarrow> real \<Rightarrow> Point list \<Rightarrow> bool" where
  "within_tolerance dst epsSq run =
     (2 \<le> length run \<and> (\<forall>p \<in> set (butlast (tl run)). dst p (hd run) (last run) \<le> epsSq))"

text \<open>Consecutive runs share their end point: the last point of one is the first of the
  next.\<close>

fun chained :: "Point list list \<Rightarrow> bool" where
  "chained [] = True"
| "chained [r] = True"
| "chained (r # r' # rs) = (last r = hd r' \<and> chained (r' # rs))"

fun join_runs :: "Point list list \<Rightarrow> Point list" where
  "join_runs [] = []"
| "join_runs [r] = r"
| "join_runs (r # r' # rs) = butlast r @ join_runs (r' # rs)"

definition kept_vertices :: "Point list list \<Rightarrow> Point list" where
  "kept_vertices runs = map hd runs @ [last (last runs)]"

text \<open>\<open>ys\<close> simplifies \<open>pts\<close> within the tolerance: \<open>pts\<close> splits into chained runs, \<open>ys\<close>
  keeps exactly the end points of the runs, and every discarded point is within the
  tolerance of the segment that replaces its run.\<close>

definition rdp_bound ::
  "(Point \<Rightarrow> Point \<Rightarrow> Point \<Rightarrow> real) \<Rightarrow> real \<Rightarrow> Point list \<Rightarrow> Point list \<Rightarrow> bool" where
  "rdp_bound dst epsSq pts ys =
     (\<exists>runs. runs \<noteq> [] \<and> chained runs \<and> (\<forall>run \<in> set runs. within_tolerance dst epsSq run)
             \<and> join_runs runs = pts \<and> kept_vertices runs = ys)"

subsection \<open>Example states\<close>

text \<open>Concrete inputs on which the properties below are exercised.\<close>

definition canvas0 :: Canvas where
  "canvas0 = \<lparr>cv_width = 800, cv_height = 600, rect_left = 0, rect_top = 0,
               rect_width = 800, rect_height = 600\<rparr>"

definition press :: "int \<Rightarrow> real \<Rightarrow> real \<Rightarrow> PointerEvent" where
  "press b cx cy = \<lparr>button = b, clientX = cx, clientY = cy, pressure = 1 / 2\<rparr>"

definition exampleShape :: "int \<Rightarrow> Op" where
  "exampleShape lid =
     Shape \<lparr>sh_shape = ShRect, sh_color = ''#164e63'', sh_size = 4, sh_alpha = 1,
            sh_composite = ''source-over'', sh_x0 = 0, sh_y0 = 0, sh_x1 = 10, sh_y1 = 4,
            sh_layer = lid\<rparr>"

definition twoLayers :: State where
  "twoLayers =
     initialState\<lparr>heap := [0 \<mapsto> exampleShape 0, 1 \<mapsto> exampleShape 1, 2 \<mapsto> exampleShape 0],
                  nextRef := 3, ops := [0, 1, 2], redo := [],
                  layers := [\<lparr>l_id = 0, l_name = ''Layer 1'', l_visible = True, l_opacity = 1\<rparr>,
                             \<lparr>l_id = 1, l_name = ''Layer 2'', l_visible = True, l_opacity = 1 / 2\<rparr>],
                  canvas := Some canvas0\<rparr>"

definition drawn :: "State option" where
  "drawn = pointerUp (pointerDown (press 0 10 10) (initialState\<lparr>canvas := Some canvas0\<rparr>))"

definition image0 :: HTMLImageElement where
  "image0 = \<lparr>img_width = 400, img_height = 300\<rparr>"

definition examplePoint :: Point where
  "examplePoint = \<lparr>pt_x = 10, pt_y = 10, pt_p = Some (1 / 2)\<rparr>"

definition exampleStroke :: Op where
  "exampleStroke =
     Stroke \<lparr>s_tool = PEN, s_color = ''#164e63'', s_size = 4, s_alpha = 1 / 2,
             s_composite = ''source-over'', s_points = [examplePoint], s_smooth = True,
             s_brushType = ''smooth'', s_layer = 1\<rparr>"

definition exampleImage :: Op where
  "exampleImage =
     Image \<lparr>i_img = image0, i_x = 200, i_y = 150, i_w = 400, i_h = 300, i_layer = 1\<rparr>"

definition translucent :: State where
  "translucent =
     initialState\<lparr>heap := [0 \<mapsto> exampleStroke, 1 \<mapsto> exampleImage, 2 \<mapsto> exampleShape 2],
                  nextRef := 3, ops := [0, 1, 2],
                  layers := [\<lparr>l_id = 0, l_name = ''Layer 1'', l_visible = True, l_opacity = 1\<rparr>,
                             \<lparr>l_id = 1, l_name = ''Layer 2'', l_visible = True, l_opacity = 1 / 2\<rparr>,
                             \<lparr>l_id = 2, l_name = ''Layer 3'', l_visible = False, l_opacity = 1\<rparr>],
                  canvas := Some canvas0\<rparr>"

definition ctx0 :: Ctx where
  "ctx0 = \<lparr>globalAlpha = 1, globalCompositeOperation = ''source-over'', painted = []\<rparr>"

definition exampleLine :: ShapeOp where
  "exampleLine =
     \<lparr>sh_shape = ShLine, sh_color = ''#164e63'', sh_size = 4, sh_alpha = 1,
      sh_composite = ''source-over'', sh_x0 = 0, sh_y0 = 0, sh_x1 = 10, sh_y1 = 4,
      sh_layer = 0\<rparr>"

definition exampleRect :: ShapeOp where
  "exampleRect = exampleLine\<lparr>sh_shape := ShRect\<rparr>"


text \<open>The rect from \<open>(0, 0.2)\<close> to \<open>(0.5, 0.8)\<close>; the coordinates are the doubles the
  literals \<open>0.2\<close>, \<open>0.5\<close> and \<open>0.8\<close> denote.\<close>

definition roundedRect :: ShapeOp where
  "roundedRect =
     exampleRect\<lparr>sh_x0 := 0, sh_y0 := 3602879701896397 / 18014398509481984,
                 sh_x1 := 1 / 2, sh_y1 := 3602879701896397 / 4503599627370496\<rparr>"

definition pt :: "real \<Rightarrow> real \<Rightarrow> Point" where
  "pt a b = \<lparr>pt_x = a, pt_y = b, pt_p = Some (1 / 2)\<rparr>"

definition nearlyStraight :: "Point list" where
  "nearlyStraight = [pt 0 0, pt 1 (1 / 10), pt 2 (- 1 / 10), pt 3 0]"

definition strokeOf :: "Point list \<Rightarrow> StrokeOp" where
  "strokeOf pts =
     \<lparr>s_tool = PEN, s_color = ''#164e63'', s_size = 4, s_alpha = 1,
      s_composite = ''source-over'', s_points = pts, s_smooth = True,
      s_brushType = ''smooth'', s_layer = 0\<rparr>"

text \<open>Three points whose coordinates are the doubles \<open>(0, 0)\<close>,
  \<open>(210.12774874850794, -193.8785538071179)\<close> and \<open>(292.9952561499114, -272.0503916293462)\<close>.\<close>

definition roundingCase :: "Point list" where
  "roundingCase =
     [pt 0 0,
      pt (3696606449078053 / 17592186044416) (- (213171724287321 / 1099511627776)),
      pt (5154427056320563 / 17592186044416) (- (1196490275749923 / 4398046511104))]"

definition overshoot :: "Point list" where
  "overshoot = [pt 0 0, pt 3 1, pt 2 0]"

definition drawing :: State where
  "drawing =
     initialState\<lparr>heap := [0 \<mapsto> Stroke (strokeOf roundingCase)], nextRef := 1, ops := [0],
                  isDrawing := True, currentStroke := Some 0, canvas := Some canvas0\<rparr>"

section \<open>Properties\<close>

subsection \<open>Undo/redo inverse law\<close>

lemma handleUndo_snoc:
  "ops s = os @ [o1] \<Longrightarrow> handleUndo s = s\<lparr>ops := os, redo := o1 # redo s\<rparr>"
  by (simp add: handleUndo_def Let_def)

text \<open>
  Claim C1. For a document \<open>[o1..on]\<close> with \<open>n \<ge> 1\<close>, undo moves the last element to the
  front of the redo stack and leaves the document \<open>[o1..on-1]\<close>; a redo right after it
  pops that element and appends it, so the whole state, the document with the same
  objects in the same order and the redo stack, is what it was before the undo.
\<close>

theorem undo_redo_inverse:
  assumes "ops s = os @ [o1]"
  shows "ops (handleUndo s) = os
       \<and> redo (handleUndo s) = o1 # redo s
       \<and> heap (handleUndo s) = heap s
       \<and> document (handleUndo s) = map (heap s) os
       \<and> redoStack (handleUndo s) = heap s o1 # redoStack s
       \<and> ops (handleRedo (handleUndo s)) = os @ [o1]
       \<and> redo (handleRedo (handleUndo s)) = redo s
       \<and> document (handleRedo (handleUndo s)) = document s
       \<and> handleRedo (handleUndo s) = s"
  using assms by (simp add: handleUndo_snoc handleRedo_def document_def redoStack_def)

theorem undo_redo_inverse_witness:
  "ops twoLayers = [0, 1] @ [2]
   \<and> ops (handleUndo twoLayers) = [0, 1]
   \<and> redo (handleUndo twoLayers) = [2]
   \<and> document (handleUndo twoLayers) = [Some (exampleShape 0), Some (exampleShape 1)]
   \<and> handleRedo (handleUndo twoLayers) = twoLayers"
proof -
  have h: "ops twoLayers = [0, 1] @ [2]" by (simp add: twoLayers_def)
  have r: "redo twoLayers = []" by (simp add: twoLayers_def)
  have m: "map (heap twoLayers) [0, 1] = [Some (exampleShape 0), Some (exampleShape 1)]"
    by (simp add: twoLayers_def)
  show ?thesis using undo_redo_inverse [OF h] h r m by simp
qed

subsection \<open>No-op conditions and layer deletion\<close>

text \<open>
  Claim C8. Undo on an empty document, redo on an empty redo stack and deleting a layer
  when at most one layer exists return the state they were given: document, redo stack
  and layer list are unchanged and no alert is raised. With more than one layer,
  deleting layer \<open>lid\<close> keeps, in order, exactly the Ops whose layer is not \<open>lid\<close>, and
  changes neither the stored Ops nor the redo stack.
\<close>

theorem noop_and_delete:
  "(ops s = [] \<longrightarrow> handleUndo s = s)
   \<and> (redo t = [] \<longrightarrow> handleRedo t = t)
   \<and> (length (layers u) \<le> 1 \<longrightarrow> deleteLayer lid u = u)
   \<and> (length (layers v) > 1 \<longrightarrow>
        ops (deleteLayer lid v) = filter (\<lambda>r. ref_layer v r \<noteq> Some lid) (ops v)
        \<and> (\<forall>r. r \<in> set (ops (deleteLayer lid v)) \<longleftrightarrow>
                 r \<in> set (ops v) \<and> ref_layer v r \<noteq> Some lid)
        \<and> subseq (ops (deleteLayer lid v)) (ops v)
        \<and> document (deleteLayer lid v)
            = filter (\<lambda>opv. map_option op_layer opv \<noteq> Some lid) (document v)
        \<and> heap (deleteLayer lid v) = heap v
        \<and> redo (deleteLayer lid v) = redo v
        \<and> layers (deleteLayer lid v) = filter (\<lambda>l. l_id l \<noteq> lid) (layers v))"
  by (simp add: handleUndo_def handleRedo_def deleteLayer_def document_def filter_map comp_def
      ref_layer_def)

theorem noop_and_delete_witness:
  "ops initialState = [] \<and> handleUndo initialState = initialState
   \<and> redo initialState = [] \<and> handleRedo initialState = initialState
   \<and> length (layers initialState) \<le> 1 \<and> deleteLayer 1 initialState = initialState
   \<and> length (layers twoLayers) > 1 \<and> ops (deleteLayer 1 twoLayers) = [0, 2]
   \<and> redo (deleteLayer 1 twoLayers) = []"
proof -
  have i: "ops initialState = []" "redo initialState = []" "length (layers initialState) \<le> 1"
    by (simp_all add: initialState_def)
  have t: "length (layers twoLayers) > 1" "redo twoLayers = []"
    by (simp_all add: twoLayers_def)
  have f: "filter (\<lambda>r. ref_layer twoLayers r \<noteq> Some 1) (ops twoLayers) = [0, 2]"
    by (simp add: twoLayers_def ref_layer_def exampleShape_def)
  show ?thesis
    using noop_and_delete [of initialState initialState initialState 1 twoLayers] i t f
    by simp
qed

subsection \<open>Pointer-down and the redo stack\<close>

text \<open>
  Claim C10. Every pointer-down with the primary button leaves the redo stack empty,
  whatever the tool. With a tool that is not a freehand tool (select, text, line, rect,
  ellipse) the pointer-down itself commits nothing: the document is the same as before,
  so the Ops that were on the redo stack are gone without any new Op, and a redo after
  the press does nothing.
\<close>

theorem pointerDown_clears_redo:
  assumes "button e = 0"
  shows "redo (pointerDown e s) = []
       \<and> handleRedo (pointerDown e s) = pointerDown e s
       \<and> (tool s \<notin> set FREEHAND_TOOLS \<longrightarrow>
            ops (pointerDown e s) = ops s \<and> heap (pointerDown e s) = heap s)"
  using assms by (simp add: pointerDown_def Let_def alloc_def case_prod_unfold handleRedo_def)

theorem pointerDown_clears_redo_witness:
  "button (press 0 10 10) = 0
   \<and> tool (handleUndo (twoLayers\<lparr>tool := SELECT\<rparr>)) \<notin> set FREEHAND_TOOLS
   \<and> redo (handleUndo (twoLayers\<lparr>tool := SELECT\<rparr>)) = [2]
   \<and> redo (pointerDown (press 0 10 10) (handleUndo (twoLayers\<lparr>tool := SELECT\<rparr>))) = []
   \<and> ops (pointerDown (press 0 10 10) (handleUndo (twoLayers\<lparr>tool := SELECT\<rparr>))) = [0, 1]"
proof -
  let ?s = "handleUndo (twoLayers\<lparr>tool := SELECT\<rparr>)"
  have b: "button (press 0 10 10) = 0" by (simp add: press_def)
  have n: "tool ?s \<notin> set FREEHAND_TOOLS"
    by (simp add: FREEHAND_TOOLS_def handleUndo_def twoLayers_def)
  have o: "ops ?s = [0, 1]" "redo ?s = [2]"
    by (simp_all add: handleUndo_def twoLayers_def)
  show ?thesis
    using pointerDown_clears_redo [OF b, of ?s] b n o by simp
qed

subsection \<open>Freehand gesture start\<close>

text \<open>
  Claim C9, amended. A pointer-down with the primary button and a freehand tool appends
  one new Stroke Op to the document. Its points are the single sampled point; its colour
  is the tool colour, except that the eraser takes \<open>#000000\<close> and the blend mode
  \<open>destination-out\<close>; its alpha is 0.3 for the highlighter and the user alpha otherwise.
  A pointer-down with any other button does nothing: the state is left as it was,
  whatever the tool.
\<close>

theorem pointerDown_freehand:
  "(button e = 0 \<and> tool s \<in> set FREEHAND_TOOLS \<longrightarrow>
      (\<exists>st. ops (pointerDown e s) = ops s @ [nextRef s]
            \<and> heap (pointerDown e s) = (heap s)(nextRef s \<mapsto> Stroke st)
            \<and> s_points st = [getPos e s]
            \<and> s_color st = (if tool s = ERASER then ''#000000'' else color s)
            \<and> s_composite st = (if tool s = ERASER then ''destination-out'' else ''source-over'')
            \<and> s_alpha st = (if tool s = HIGHLIGHTER then 3 / 10 else alpha s)
            \<and> s_tool st = tool s \<and> s_layer st = currentLayer s))
   \<and> (button e \<noteq> 0 \<longrightarrow> pointerDown e s = s)"
proof (intro conjI impI)
  assume a: "button e = 0 \<and> tool s \<in> set FREEHAND_TOOLS"
  let ?st = "\<lparr>s_tool = tool s,
              s_color = (if tool s = ERASER then ''#000000'' else color s),
              s_size = size' s,
              s_alpha = (if tool s = HIGHLIGHTER then 3 / 10 else alpha s),
              s_composite = (if tool s = ERASER then ''destination-out'' else ''source-over''),
              s_points = [getPos e s], s_smooth = smooth s, s_brushType = brushType s,
              s_layer = currentLayer s\<rparr>"
  have "tool s \<noteq> TEXT" using a by (auto simp: FREEHAND_TOOLS_def)
  then have "ops (pointerDown e s) = ops s @ [nextRef s]"
    and "heap (pointerDown e s) = (heap s)(nextRef s \<mapsto> Stroke ?st)"
    using a by (simp_all add: pointerDown_def Let_def alloc_def case_prod_unfold)
  then show "\<exists>st. ops (pointerDown e s) = ops s @ [nextRef s]
            \<and> heap (pointerDown e s) = (heap s)(nextRef s \<mapsto> Stroke st)
            \<and> s_points st = [getPos e s]
            \<and> s_color st = (if tool s = ERASER then ''#000000'' else color s)
            \<and> s_composite st = (if tool s = ERASER then ''destination-out'' else ''source-over'')
            \<and> s_alpha st = (if tool s = HIGHLIGHTER then 3 / 10 else alpha s)
            \<and> s_tool st = tool s \<and> s_layer st = currentLayer s"
    by (intro exI [where x = ?st]) simp
next
  assume "button e \<noteq> 0"
  then show "pointerDown e s = s" by (simp add: pointerDown_def)
qed

theorem pointerDown_freehand_witness:
  "button (press 0 10 10) = 0 \<and> tool (twoLayers\<lparr>tool := ERASER\<rparr>) \<in> set FREEHAND_TOOLS
   \<and> (\<exists>st. ops (pointerDown (press 0 10 10) (twoLayers\<lparr>tool := ERASER\<rparr>)) = [0, 1, 2, 3]
          \<and> heap (pointerDown (press 0 10 10) (twoLayers\<lparr>tool := ERASER\<rparr>)) 3 = Some (Stroke st)
          \<and> length (s_points st) = 1
          \<and> s_color st = ''#000000'' \<and> s_composite st = ''destination-out''
          \<and> s_alpha st = 1)
   \<and> button (press 2 10 10) \<noteq> 0
   \<and> pointerDown (press 2 10 10) (twoLayers\<lparr>tool := ERASER\<rparr>) = twoLayers\<lparr>tool := ERASER\<rparr>"
proof -
  have b: "button (press 0 10 10) = 0" by (simp add: press_def)
  have b2: "button (press 2 10 10) \<noteq> 0" by (simp add: press_def)
  have n: "tool (twoLayers\<lparr>tool := ERASER\<rparr>) \<in> set FREEHAND_TOOLS"
    by (simp add: FREEHAND_TOOLS_def)
  have o: "ops (twoLayers\<lparr>tool := ERASER\<rparr>) = [0, 1, 2]"
       "nextRef (twoLayers\<lparr>tool := ERASER\<rparr>) = 3"
       "alpha (twoLayers\<lparr>tool := ERASER\<rparr>) = 1"
    by (simp_all add: twoLayers_def initialState_def)
  from pointerDown_freehand [of "press 0 10 10" "twoLayers\<lparr>tool := ERASER\<rparr>"] b n
  obtain st where
    st: "ops (pointerDown (press 0 10 10) (twoLayers\<lparr>tool := ERASER\<rparr>)) = [0, 1, 2, 3]"
        "heap (pointerDown (press 0 10 10) (twoLayers\<lparr>tool := ERASER\<rparr>)) 3 = Some (Stroke st)"
        "length (s_points st) = 1" "s_color st = ''#000000''"
        "s_composite st = ''destination-out''" "s_alpha st = 1"
    using o by auto
  from pointerDown_freehand [of "press 2 10 10" "twoLayers\<lparr>tool := ERASER\<rparr>"] b2
  have "pointerDown (press 2 10 10) (twoLayers\<lparr>tool := ERASER\<rparr>) = twoLayers\<lparr>tool := ERASER\<rparr>"
    by blast
  then show ?thesis using st b b2 n by blast
qed

text \<open>
  Claim C9 as stated, for every pointer-down, fails: \<open>pointerDown\<close> returns at once when
  the button is not the primary one, so a press of button 2 with the pen appends nothing.
\<close>

theorem pointerDown_secondary_button:
  "tool initialState \<in> set FREEHAND_TOOLS
   \<and> pointerDown (press 2 10 10) initialState = initialState
   \<and> ops (pointerDown (press 2 10 10) initialState) = []"
  by (simp add: pointerDown_def press_def initialState_def FREEHAND_TOOLS_def)

subsection \<open>Redo invalidation\<close>

text \<open>
  Claim C2. \<open>handleImageImport\<close> and \<open>commitText\<close> append their Op and leave the redo
  stack as it is; only \<open>pointerDown\<close>, \<open>handleLoadJSON\<close> and \<open>handleClear\<close> empty it. At a
  concrete run (draw one stroke, undo it, import an image) the undone stroke is still on
  the redo stack after the import, and a redo right after the commit puts it back behind
  the image.
\<close>

theorem image_import_keeps_redo:
  "redo (handleImageImport img s) = redo s
   \<and> redo (commitText v s) = redo s
   \<and> map_option (\<lambda>s. redo (handleImageImport image0 (handleUndo s))) drawn = Some [0]
   \<and> map_option (\<lambda>s. ops (handleImageImport image0 (handleUndo s))) drawn = Some [1]
   \<and> map_option (\<lambda>s. ops (handleRedo (handleImageImport image0 (handleUndo s)))) drawn
       = Some [1, 0]"
proof (intro conjI)
  show "redo (handleImageImport img s) = redo s"
    by (simp add: handleImageImport_def alloc_def Let_def split: option.splits)
  show "redo (commitText v s) = redo s"
    by (simp add: commitText_def alloc_def Let_def)
qed (simp_all add: drawn_def pointerUp_def pointerDown_def press_def initialState_def canvas0_def
      FREEHAND_TOOLS_def alloc_def getPos_def simplifyRDP_def handleUndo_def
      handleImageImport_def handleRedo_def image0_def Let_def)

subsection \<open>Loading a document\<close>

lemma allocAll_nextRef: "nextRef (snd (allocAll xs s)) = nextRef s + length xs"
  by (induction xs arbitrary: s) (simp_all add: alloc_def Let_def case_prod_unfold)

lemma allocAll_heap_old: "r < nextRef s \<Longrightarrow> heap (snd (allocAll xs s)) r = heap s r"
proof (induction xs arbitrary: s)
  case Nil
  then show ?case by simp
next
  case (Cons a xs)
  have "heap (snd (allocAll xs (snd (alloc a s)))) r = heap (snd (alloc a s)) r"
    using Cons.prems by (intro Cons.IH) (simp add: alloc_def)
  then show ?case using Cons.prems
    by (simp add: alloc_def Let_def case_prod_unfold)
qed

lemma allocAll_values:
  "map (heap (snd (allocAll xs s))) (fst (allocAll xs s)) = map Some xs"
proof (induction xs arbitrary: s)
  case Nil
  then show ?case by simp
next
  case (Cons a xs)
  let ?s1 = "snd (alloc a s)"
  have old: "heap (snd (allocAll xs ?s1)) (nextRef s) = heap ?s1 (nextRef s)"
    by (rule allocAll_heap_old) (simp add: alloc_def)
  have "heap ?s1 (nextRef s) = Some a" by (simp add: alloc_def)
  with old Cons.IH [of ?s1] show ?case
    by (simp add: alloc_def Let_def case_prod_unfold)
qed

lemma allocAll_other:
  "ops (snd (allocAll xs s)) = ops s \<and> redo (snd (allocAll xs s)) = redo s
   \<and> alerts (snd (allocAll xs s)) = alerts s \<and> layers (snd (allocAll xs s)) = layers s"
  by (induction xs arbitrary: s) (simp_all add: alloc_def Let_def case_prod_unfold)

text \<open>
  Claim C7. When the file does not parse or its top-level value is not an array, the
  load raises the alert \<open>Invalid JSON file\<close> and changes nothing else: document, redo
  stack and stored Ops are those of before. When it is an array, the document becomes
  the loaded Ops, in order, and the redo stack is empty.
\<close>

theorem load_atomic:
  "(parsed = SyntaxError \<or> parsed = NotArray \<longrightarrow>
      handleLoadJSON parsed s = s\<lparr>alerts := alerts s @ [''Invalid JSON file'']\<rparr>
      \<and> ops (handleLoadJSON parsed s) = ops s
      \<and> redo (handleLoadJSON parsed s) = redo s
      \<and> heap (handleLoadJSON parsed s) = heap s
      \<and> document (handleLoadJSON parsed s) = document s)
   \<and> (parsed = Array loaded \<longrightarrow>
      document (handleLoadJSON parsed s) = map Some loaded
      \<and> redo (handleLoadJSON parsed s) = []
      \<and> alerts (handleLoadJSON parsed s) = alerts s)"
proof (intro conjI impI)
  assume a: "parsed = Array loaded"
  show "document (handleLoadJSON parsed s) = map Some loaded"
    using allocAll_values [of loaded s]
    by (simp add: a handleLoadJSON_def document_def case_prod_unfold Let_def)
  show "redo (handleLoadJSON parsed s) = []"
    by (simp add: a handleLoadJSON_def case_prod_unfold Let_def)
  show "alerts (handleLoadJSON parsed s) = alerts s"
    using allocAll_other [of loaded s]
    by (simp add: a handleLoadJSON_def case_prod_unfold Let_def)
qed (auto simp: handleLoadJSON_def document_def)

theorem load_atomic_witness:
  "document (handleLoadJSON NotArray twoLayers) = document twoLayers
   \<and> alerts (handleLoadJSON NotArray twoLayers) = [''Invalid JSON file'']
   \<and> document (handleLoadJSON (Array [exampleShape 1]) (twoLayers\<lparr>redo := [1]\<rparr>))
       = [Some (exampleShape 1)]
   \<and> redo (handleLoadJSON (Array [exampleShape 1]) (twoLayers\<lparr>redo := [1]\<rparr>)) = []"
proof -
  have a: "alerts twoLayers = []" by (simp add: twoLayers_def initialState_def)
  show ?thesis
    using load_atomic [of NotArray twoLayers "[]"]
      load_atomic [of "Array [exampleShape 1]" "twoLayers\<lparr>redo := [1]\<rparr>" "[exampleShape 1]"] a
    by (simp add: document_def)
qed

subsection \<open>Compositing\<close>

lemma renderOp_painted:
  "painted (renderOp layer ctx opv) = painted ctx @ spec_paints layer opv"
  by (cases opv) (auto simp: spec_paints_def paint_def drawSmoothStroke_def Let_def Suc_le_eq)

lemma foldl_renderOp_painted:
  "painted (foldl (renderOp layer) ctx xs) = painted ctx @ concat (map (spec_paints layer) xs)"
  by (induction xs arbitrary: ctx) (simp_all add: renderOp_painted)

lemma renderLayer_painted:
  "painted (renderLayer s ctx layer) = painted ctx @ spec_layer_paints s layer"
  by (simp add: renderLayer_def spec_layer_paints_def foldl_renderOp_painted)

lemma foldl_renderLayer_painted:
  "painted (foldl (renderLayer s) ctx ls) = painted ctx @ concat (map (spec_layer_paints s) ls)"
  by (induction ls arbitrary: ctx) (simp_all add: renderLayer_painted)

lemma renderAll_painted:
  "canvas s = Some c \<Longrightarrow>
   painted (renderAll s ctx) = concat (map (spec_layer_paints s) (layers s))"
  by (simp add: renderAll_def foldl_renderLayer_painted)

lemma spec_paints_mem:
  "pa \<in> set (spec_paints layer opv) \<longleftrightarrow>
   reaches_surface opv \<and> pa = \<lparr>pa_alpha = spec_alpha layer opv, pa_composite = spec_composite opv, pa_op = opv\<rparr>"
  by (auto simp: spec_paints_def)

text \<open>
  Claim C5. With a canvas mounted, \<open>renderAll\<close> paints exactly what the compositing rule
  asks for, layer by layer in layer order and Op by Op in document order. Every paint
  comes from an Op of the document on a visible layer with that Op's layer id; a stroke
  or a shape is painted with its own alpha times the layer's opacity and its stored
  blend mode, an image or a text with the layer's opacity alone and \<open>source-over\<close>.
  A layer that is not visible paints nothing, and every Op of a visible layer that
  reaches the surface is painted with those values.
\<close>

theorem compositing_alpha:
  assumes "canvas s = Some c"
  shows "painted (renderAll s ctx) = concat (map (spec_layer_paints s) (layers s))
     \<and> (\<forall>pa \<in> set (painted (renderAll s ctx)).
          \<exists>layer \<in> set (layers s).
            l_visible layer \<and> pa_op pa \<in> set (opValues s) \<and> op_layer (pa_op pa) = l_id layer
            \<and> (case pa_op pa of
                  Stroke st \<Rightarrow> pa_alpha pa = s_alpha st * l_opacity layer
                               \<and> pa_composite pa = s_composite st
                | Shape sh \<Rightarrow> pa_alpha pa = sh_alpha sh * l_opacity layer
                               \<and> pa_composite pa = sh_composite sh
                | Image i \<Rightarrow> pa_alpha pa = l_opacity layer \<and> pa_composite pa = ''source-over''
                | Text t \<Rightarrow> pa_alpha pa = l_opacity layer \<and> pa_composite pa = ''source-over''))
     \<and> (\<forall>layer \<in> set (layers s). \<forall>opv \<in> set (opValues s).
          l_visible layer \<and> op_layer opv = l_id layer \<and> reaches_surface opv \<longrightarrow>
          \<lparr>pa_alpha = spec_alpha layer opv, pa_composite = spec_composite opv, pa_op = opv\<rparr>
            \<in> set (painted (renderAll s ctx)))"
proof (intro conjI ballI impI)
  show eq: "painted (renderAll s ctx) = concat (map (spec_layer_paints s) (layers s))"
    using assms by (rule renderAll_painted)
  fix pa assume "pa \<in> set (painted (renderAll s ctx))"
  then obtain layer where l: "layer \<in> set (layers s)" and pa: "pa \<in> set (spec_layer_paints s layer)"
    unfolding eq by auto
  from pa have vis: "l_visible layer"
    by (auto simp: spec_layer_paints_def split: if_splits)
  with pa obtain opv where opv: "opv \<in> set (opValues s)" "op_layer opv = l_id layer"
      and pa2: "pa = \<lparr>pa_alpha = spec_alpha layer opv, pa_composite = spec_composite opv, pa_op = opv\<rparr>"
    by (auto simp: spec_layer_paints_def spec_paints_mem)
  show "\<exists>layer \<in> set (layers s).
            l_visible layer \<and> pa_op pa \<in> set (opValues s) \<and> op_layer (pa_op pa) = l_id layer
            \<and> (case pa_op pa of
                  Stroke st \<Rightarrow> pa_alpha pa = s_alpha st * l_opacity layer
                               \<and> pa_composite pa = s_composite st
                | Shape sh \<Rightarrow> pa_alpha pa = sh_alpha sh * l_opacity layer
                               \<and> pa_composite pa = sh_composite sh
                | Image i \<Rightarrow> pa_alpha pa = l_opacity layer \<and> pa_composite pa = ''source-over''
                | Text t \<Rightarrow> pa_alpha pa = l_opacity layer \<and> pa_composite pa = ''source-over'')"
    using l vis opv pa2 by (intro bexI [where x = layer]) (auto split: Op.splits)
next
  fix layer opv
  assume "layer \<in> set (layers s)" "opv \<in> set (opValues s)"
    and "l_visible layer \<and> op_layer opv = l_id layer \<and> reaches_surface opv"
  then have "\<lparr>pa_alpha = spec_alpha layer opv, pa_composite = spec_composite opv, pa_op = opv\<rparr>
      \<in> set (concat (map (spec_layer_paints s) (layers s)))"
    by (auto simp: spec_layer_paints_def spec_paints_mem intro!: bexI [where x = layer] bexI [where x = opv])
  then show "\<lparr>pa_alpha = spec_alpha layer opv, pa_composite = spec_composite opv, pa_op = opv\<rparr>
            \<in> set (painted (renderAll s ctx))"
    using renderAll_painted [OF assms] by simp
qed

theorem compositing_alpha_witness:
  "canvas translucent = Some canvas0
   \<and> painted (renderAll translucent ctx0) =
       [\<lparr>pa_alpha = 1 / 4, pa_composite = ''source-over'', pa_op = exampleStroke\<rparr>,
        \<lparr>pa_alpha = 1 / 2, pa_composite = ''source-over'', pa_op = exampleImage\<rparr>]"
proof -
  have c: "canvas translucent = Some canvas0" by (simp add: translucent_def)
  have v: "opValues translucent = [exampleStroke, exampleImage, exampleShape 2]"
    by (simp add: opValues_def translucent_def map_filter_simps)
  have l: "layers translucent =
        [\<lparr>l_id = 0, l_name = ''Layer 1'', l_visible = True, l_opacity = 1\<rparr>,
         \<lparr>l_id = 1, l_name = ''Layer 2'', l_visible = True, l_opacity = 1 / 2\<rparr>,
         \<lparr>l_id = 2, l_name = ''Layer 3'', l_visible = False, l_opacity = 1\<rparr>]"
    by (simp add: translucent_def)
  have "concat (map (spec_layer_paints translucent) (layers translucent)) =
       [\<lparr>pa_alpha = 1 / 4, pa_composite = ''source-over'', pa_op = exampleStroke\<rparr>,
        \<lparr>pa_alpha = 1 / 2, pa_composite = ''source-over'', pa_op = exampleImage\<rparr>]"
    unfolding l spec_layer_paints_def v
    by (simp add: spec_paints_def exampleStroke_def exampleImage_def exampleShape_def)
  then show ?thesis
    using compositing_alpha [OF c, of ctx0] c by simp
qed

subsection \<open>Double arithmetic\<close>

lemma round_even_nonneg: "0 \<le> r \<Longrightarrow> 0 \<le> round_even r"
  by (auto simp: round_even_def Let_def)

lemma double_round_nonneg: "0 \<le> x \<Longrightarrow> 0 \<le> double_round x"
  by (auto simp: double_round_def Let_def intro!: mult_nonneg_nonneg round_even_nonneg)

lemma double_round_0: "double_round 0 = 0"
  by (simp add: double_round_def)

lemma double_round_by_ulp:
  assumes "- 1022 \<le> e" and "u = 2 powr (of_int e - 52)"
    and "2 ^ 52 * u \<le> \<bar>x\<bar>" and "\<bar>x\<bar> < 2 ^ 53 * u"
  shows "double_round x = of_int (round_even (x / u)) * u"
proof -
  have u: "0 < u" by (simp add: assms(2))
  have x: "x \<noteq> 0" using assms(3) u by auto
  have "(2::real) powr 52 * 2 powr (of_int e - 52) = 2 powr (52 + (of_int e - 52))"
    by (rule powr_add [symmetric])
  then have a: "2 powr (of_int e) = 2 ^ 52 * u" by (simp add: assms(2))
  have "(2::real) powr 53 * 2 powr (of_int e - 52) = 2 powr (53 + (of_int e - 52))"
    by (rule powr_add [symmetric])
  then have b: "2 powr (of_int (e + 1)) = 2 ^ 53 * u" by (simp add: assms(2) add.commute)
  have "2 powr (of_int e) \<le> \<bar>x\<bar> \<and> \<bar>x\<bar> < 2 powr (of_int (e + 1))"
    using assms(3,4) unfolding a b by simp
  then have "\<lfloor>log 2 \<bar>x\<bar>\<rfloor> = e"
    using x by (subst floor_log_eq_powr_iff) simp_all
  then show ?thesis using x assms(1) by (simp add: double_round_def Let_def assms(2) max_def)
qed

lemma round_even_of_int: "round_even (of_int i) = i"
  by (simp add: round_even_def)

lemma double_round_repr:
  assumes "\<bar>m\<bar> < 2 ^ 53" and "- 1074 \<le> k"
  shows "double_round (of_int m * 2 powr of_int k) = of_int m * 2 powr of_int k"
proof (cases "m = 0")
  case True
  then show ?thesis by (simp add: double_round_0)
next
  case False
  define x where "x = real_of_int m * 2 powr of_int k"
  have xn: "x \<noteq> 0" using False by (simp add: x_def)
  have "real_of_int \<bar>m\<bar> < real_of_int (2 ^ 53)" using assms(1) by (simp only: of_int_less_iff)
  then have "\<bar>real_of_int m\<bar> < 2 ^ 53" by simp
  then have A: "\<bar>real_of_int m\<bar> * 2 powr of_int k < 2 ^ 53 * 2 powr of_int k"
    by (intro mult_strict_right_mono) simp_all
  have "(2::real) powr 53 * 2 powr of_int k = 2 powr (53 + of_int k)"
    by (rule powr_add [symmetric])
  then have B: "(2::real) ^ 53 * 2 powr of_int k = 2 powr (of_int (k + 53))"
    by (simp add: add.commute)
  have C: "\<bar>x\<bar> = \<bar>real_of_int m\<bar> * 2 powr of_int k" by (simp add: x_def abs_mult)
  have "\<bar>x\<bar> < 2 powr (of_int (k + 53))" unfolding C using A unfolding B .
  then have "log 2 \<bar>x\<bar> < of_int (k + 53)"
    using xn by (subst log_less_iff) simp_all
  then have "\<lfloor>log 2 \<bar>x\<bar>\<rfloor> < k + 53" by (simp only: floor_less_iff)
  then have fl: "\<lfloor>log 2 \<bar>x\<bar>\<rfloor> \<le> k + 52" by linarith
  define e where "e = max \<lfloor>log 2 \<bar>x\<bar>\<rfloor> (- 1022)"
  have e: "e \<le> k + 52" using fl assms(2) by (simp add: e_def)
  define n where "n = nat (k + 52 - e)"
  define u where "u = 2 powr (real_of_int e - 52)"
  have n: "real n = of_int k - (of_int e - 52)" using e by (simp add: n_def)
  have "2 powr of_int k / u = 2 powr (of_int k - (of_int e - 52))"
    unfolding u_def by (rule powr_diff [symmetric])
  also have "\<dots> = 2 powr (real n)" by (simp only: n)
  also have "\<dots> = 2 ^ n" by (simp add: powr_realpow)
  finally have q: "2 powr of_int k / u = 2 ^ n" .
  have "x / u = real_of_int m * (2 powr of_int k / u)" by (simp add: x_def)
  then have xu: "x / u = of_int (m * 2 ^ n)" by (simp add: q)
  have up: "0 < u" by (simp add: u_def)
  have "double_round x = of_int (round_even (x / u)) * u"
    using xn by (simp add: double_round_def Let_def e_def u_def)
  also have "\<dots> = of_int (m * 2 ^ n) * u" unfolding xu round_even_of_int ..
  also have "\<dots> = (x / u) * u" by (simp only: xu)
  also have "\<dots> = x" using up by simp
  finally show ?thesis by (simp add: x_def)
qed

lemma double_round_of_int:
  assumes "\<bar>m\<bar> < 2 ^ 53"
  shows "double_round (of_int m) = of_int m"
  using double_round_repr [OF assms, of 0] by simp

lemma double_round_numeral:
  assumes "(numeral w :: int) < 2 ^ 53"
  shows "double_round (numeral w) = numeral w" "double_round (- numeral w) = - numeral w"
  using double_round_of_int [of "numeral w"] double_round_of_int [of "- numeral w"] assms
  by simp_all

lemma double_round_1: "double_round 1 = 1" "double_round (- 1) = - 1"
  using double_round_of_int [of 1] double_round_of_int [of "- 1"] by simp_all

subsection \<open>The shape constraint\<close>

lemma exact_simps:
  "ar_fl exactArith = id" "ar_PI exactArith = pi" "ar_atan2 exactArith = atan2"
  "ar_sin exactArith = sin" "ar_cos exactArith = cos" "ar_hypot exactArith = hypot"
  by (simp_all add: exactArith_def)

lemma snaps_exact:
  "snaps exactArith = [0, pi / 4, pi / 2, (3 * pi) / 4, pi, - pi / 4, - pi / 2, (- 3 * pi) / 4]"
  by (simp add: snaps_def Let_def exact_simps)

lemma angDist_exact:
  "angDist exactArith angle a = \<bar>atan2 (sin (angle - a)) (cos (angle - a))\<bar>"
  by (simp add: angDist_def exact_simps)

lemma cos_neg_upper: assumes "pi / 2 < (t::real)" "t \<le> pi" shows "cos t < 0"
proof -
  have "0 < cos (t - pi)" using assms by (intro cos_gt_zero_pi) linarith+
  then show ?thesis by simp
qed

lemma cos_neg_lower: assumes "- pi < t" "t < - (pi / 2)" shows "cos t < 0"
proof -
  have "0 < cos (t + pi)" using assms by (intro cos_gt_zero_pi) linarith+
  then show ?thesis by simp
qed

lemma sin_neg_lower: assumes "- pi < t" "t < 0" shows "sin t < 0"
proof -
  have "0 < sin (- t)" using assms by (intro sin_gt_zero) linarith+
  then show ?thesis by simp
qed

lemma quot_tan: assumes "0 < (r::real)" shows "(r * sin t) / (r * cos t) = tan (t::real)"
proof -
  have "r \<noteq> 0" using assms by simp
  then show ?thesis by (simp add: tan_def)
qed

lemma atan2_polar:
  assumes "- pi < t" and "t \<le> pi" and "0 < r"
  shows "atan2 (r * sin t) (r * cos t) = t"
proof -
  consider (mid) "- (pi / 2) < t" "t < pi / 2" | (up) "t = pi / 2" | (down) "t = - (pi / 2)"
    | (left_up) "pi / 2 < t" | (left_down) "t < - (pi / 2)"
    by linarith
  then show ?thesis
  proof cases
    case mid
    then have "0 < r * cos t" using assms(3) by (simp add: cos_gt_zero_pi)
    then show ?thesis using mid
      unfolding atan2_def quot_tan [OF assms(3)] by (simp add: arctan_tan)
  next
    case up
    have "atan2 (r * sin (pi / 2)) (r * cos (pi / 2)) = pi / 2"
      using assms(3) by (simp add: atan2_def)
    then show ?thesis unfolding up .
  next
    case down
    have "atan2 (r * sin (- (pi / 2))) (r * cos (- (pi / 2))) = - (pi / 2)"
      using assms(3) by (simp add: atan2_def)
    then show ?thesis unfolding down .
  next
    case left_up
    have c: "r * cos t < 0" using cos_neg_upper [OF left_up assms(2)] assms(3)
      by (simp add: mult_pos_neg)
    have s: "0 \<le> r * sin t" using sin_ge_zero [of t] left_up assms pi_gt_zero by simp
    have "arctan (tan (t - pi)) = t - pi"
      using left_up assms(2) by (intro arctan_tan) linarith+
    moreover have "tan (t - pi) = tan t" using tan_periodic_pi [of "t - pi"] by simp
    ultimately have "arctan (tan t) = t - pi" by simp
    then show ?thesis using c s
      unfolding atan2_def quot_tan [OF assms(3)] by simp
  next
    case left_down
    have c: "r * cos t < 0" using cos_neg_lower [OF assms(1) left_down] assms(3)
      by (simp add: mult_pos_neg)
    have "t < 0" using left_down pi_gt_zero by linarith
    then have s: "r * sin t < 0" using sin_neg_lower [OF assms(1)] assms(3)
      by (simp add: mult_pos_neg)
    have "arctan (tan (t + pi)) = t + pi"
      using left_down assms(1) by (intro arctan_tan) linarith+
    then have "arctan (tan t) = t + pi" by simp
    then show ?thesis using c s
      unfolding atan2_def quot_tan [OF assms(3)] by simp
  qed
qed


lemma angDist_self: "angDist exactArith a a = 0"
  by (simp add: angDist_exact atan2_def)

lemma angDist_nonneg: "0 \<le> angDist exactArith angle a"
  by (simp add: angDist_exact)

lemma atan2_unit_zero:
  assumes "atan2 y x = 0" and "x\<^sup>2 + y\<^sup>2 = 1"
  shows "x = 1"
proof -
  have b: "- (pi / 2) < arctan (y / x)" "arctan (y / x) < pi / 2"
    by (rule arctan_lbound, rule arctan_ubound)
  consider "0 < x" | "x < 0" | "x = 0" by linarith
  then show ?thesis
  proof cases
    case 1
    then have "y = 0" using assms(1) by (simp add: atan2_def)
    then have "x\<^sup>2 = 1" using assms(2) by simp
    then show ?thesis using 1 by (simp add: power2_eq_1_iff)
  next
    case 2
    then have False using assms(1) b pi_gt_zero by (auto simp: atan2_def split: if_splits)
    then show ?thesis ..
  next
    case 3
    then have "y\<^sup>2 = 1" using assms(2) by simp
    then have "y \<noteq> 0" by auto
    then have False using assms(1) 3 pi_gt_zero by (auto simp: atan2_def split: if_splits)
    then show ?thesis ..
  qed
qed

lemma angDist_zero:
  assumes "angDist exactArith b a = 0" and "\<bar>b - a\<bar> < 2 * pi"
  shows "a = b"
proof -
  have "atan2 (sin (b - a)) (cos (b - a)) = 0" using assms(1) by (simp add: angDist_exact)
  then have "cos (b - a) = 1"
    by (rule atan2_unit_zero) (simp add: add.commute)
  then obtain n :: int where n: "b - a = real_of_int n * 2 * pi" using cos_one_2pi_int by blast
  then have "\<bar>real_of_int n\<bar> * (2 * pi) < 1 * (2 * pi)"
    using assms(2) by (simp add: abs_mult)
  then have "\<bar>real_of_int n\<bar> < 1" using pi_gt_zero by (simp only: mult_less_cancel_right)
  then have "n = 0" by linarith
  then show ?thesis using n by simp
qed

lemma foldl_snap_Some:
  "\<exists>b'. foldl (snap_step ar angle) (b, Some (angDist ar angle b)) xs = (b', Some (angDist ar angle b'))
        \<and> b' \<in> insert b (set xs)
        \<and> (\<forall>a \<in> insert b (set xs). angDist ar angle b' \<le> angDist ar angle a)"
proof (induction xs arbitrary: b)
  case Nil
  then show ?case by simp
next
  case (Cons x xs)
  show ?case
  proof (cases "angDist ar angle x < angDist ar angle b")
    case True
    then have step: "snap_step ar angle (b, Some (angDist ar angle b)) x = (x, Some (angDist ar angle x))"
      by (simp add: snap_step_def)
    from Cons.IH [of x] obtain b' where
      "foldl (snap_step ar angle) (x, Some (angDist ar angle x)) xs = (b', Some (angDist ar angle b'))"
      "b' \<in> insert x (set xs)" "\<forall>a \<in> insert x (set xs). angDist ar angle b' \<le> angDist ar angle a"
      by blast
    then show ?thesis using True step by (intro exI [where x = b']) force
  next
    case False
    then have step: "snap_step ar angle (b, Some (angDist ar angle b)) x = (b, Some (angDist ar angle b))"
      by (simp add: snap_step_def)
    from Cons.IH [of b] obtain b' where
      "foldl (snap_step ar angle) (b, Some (angDist ar angle b)) xs = (b', Some (angDist ar angle b'))"
      "b' \<in> insert b (set xs)" "\<forall>a \<in> insert b (set xs). angDist ar angle b' \<le> angDist ar angle a"
      by blast
    then show ?thesis using False step by (intro exI [where x = b']) force
  qed
qed

lemma snap_best_min:
  "snap_best ar angle \<in> set (snaps ar) \<and> (\<forall>a \<in> set (snaps ar). angDist ar angle (snap_best ar angle) \<le> angDist ar angle a)"
proof -
  obtain rest where r: "snaps ar = 0 # rest" by (simp add: snaps_def Let_def)
  have first: "snap_step ar angle (0, None) 0 = (0, Some (angDist ar angle 0))"
    by (simp add: snap_step_def)
  from foldl_snap_Some [of ar angle 0 rest] obtain b' where
    "foldl (snap_step ar angle) (0, Some (angDist ar angle 0)) rest = (b', Some (angDist ar angle b'))"
    "b' \<in> insert 0 (set rest)" "\<forall>a \<in> insert 0 (set rest). angDist ar angle b' \<le> angDist ar angle a"
    by blast
  then show ?thesis
    unfolding snap_best_def by (simp add: r first)
qed

lemma snap_best_nearest:
  "snap_best exactArith angle \<in> set (snaps exactArith)
   \<and> (\<forall>a \<in> set (snaps exactArith).
         angDist exactArith angle (snap_best exactArith angle) \<le> angDist exactArith angle a)"
  by (rule snap_best_min)

lemma snaps_range:
  assumes "a \<in> set (snaps exactArith)"
  shows "- pi < a \<and> a \<le> pi"
proof -
  have "a = 0 \<or> a = pi / 4 \<or> a = pi / 2 \<or> a = 3 * pi / 4 \<or> a = pi
      \<or> a = - pi / 4 \<or> a = - pi / 2 \<or> a = - 3 * pi / 4"
    using assms by (simp add: snaps_exact)
  with pi_gt_zero show ?thesis by (elim disjE) linarith+
qed

lemma snap_best_fix:
  assumes "b \<in> set (snaps exactArith)"
  shows "snap_best exactArith b = b"
proof -
  have "angDist exactArith b (snap_best exactArith b) \<le> angDist exactArith b b"
    using snap_best_nearest [of b] assms by blast
  then have z: "angDist exactArith b (snap_best exactArith b) = 0"
    using angDist_nonneg [of b "snap_best exactArith b"] by (simp add: angDist_self)
  have "- pi < snap_best exactArith b \<and> snap_best exactArith b \<le> pi"
    using snap_best_nearest [of b] by (intro snaps_range) blast
  moreover have "- pi < b \<and> b \<le> pi" using assms by (rule snaps_range)
  ultimately have "\<bar>b - snap_best exactArith b\<bar> < 2 * pi" by linarith
  with z show ?thesis by (rule angDist_zero)
qed

lemma hypot_nonneg: "0 \<le> hypot a b"
  by (simp add: hypot_def)

lemma hypot_polar: "0 \<le> len \<Longrightarrow> hypot (len * cos b) (len * sin b) = len"
proof -
  assume l: "0 \<le> len"
  have "(len * cos b) * (len * cos b) + (len * sin b) * (len * sin b)
        = len\<^sup>2 * ((sin b)\<^sup>2 + (cos b)\<^sup>2)"
    unfolding power2_eq_square by (simp only: algebra_simps)
  then have "(len * cos b) * (len * cos b) + (len * sin b) * (len * sin b) = len\<^sup>2"
    by (simp only: sin_cos_squared_add mult_1_right)
  then show ?thesis using l unfolding hypot_def by simp
qed

lemma hypot_zero: "hypot a b = 0 \<longleftrightarrow> a = 0 \<and> b = 0"
proof -
  have "a * a + b * b = 0 \<longleftrightarrow> a = 0 \<and> b = 0"
    by (simp add: sum_squares_eq_zero_iff)
  then show ?thesis by (simp add: hypot_def)
qed

lemma constrain_line:
  assumes "sh_shape sh = ShLine"
  shows "constrainWithShift exactArith sh True =
         sh\<lparr>sh_x1 := sh_x0 sh + hypot (sh_x1 sh - sh_x0 sh) (sh_y1 sh - sh_y0 sh)
                        * cos (snap_best exactArith (atan2 (sh_y1 sh - sh_y0 sh) (sh_x1 sh - sh_x0 sh))),
            sh_y1 := sh_y0 sh + hypot (sh_x1 sh - sh_x0 sh) (sh_y1 sh - sh_y0 sh)
                        * sin (snap_best exactArith (atan2 (sh_y1 sh - sh_y0 sh) (sh_x1 sh - sh_x0 sh)))\<rparr>"
  using assms by (simp add: constrainWithShift_def Let_def exact_simps)

lemma constrain_box:
  assumes "sh_shape sh \<noteq> ShLine"
  shows "constrainWithShift exactArith sh True =
         sh\<lparr>sh_x1 := sh_x0 sh + sgn (sh_x1 sh - sh_x0 sh)
                        * min \<bar>sh_x1 sh - sh_x0 sh\<bar> \<bar>sh_y1 sh - sh_y0 sh\<bar>,
            sh_y1 := sh_y0 sh + sgn (sh_y1 sh - sh_y0 sh)
                        * min \<bar>sh_x1 sh - sh_x0 sh\<bar> \<bar>sh_y1 sh - sh_y0 sh\<bar>\<rparr>"
  using assms by (simp add: constrainWithShift_def Let_def exact_simps)

lemma line_idempotent:
  assumes "sh_shape sh = ShLine"
  shows "constrainWithShift exactArith (constrainWithShift exactArith sh True) True = constrainWithShift exactArith sh True"
proof -
  define len where "len = hypot (sh_x1 sh - sh_x0 sh) (sh_y1 sh - sh_y0 sh)"
  define b where "b = snap_best exactArith (atan2 (sh_y1 sh - sh_y0 sh) (sh_x1 sh - sh_x0 sh))"
  define sh' where "sh' = sh\<lparr>sh_x1 := sh_x0 sh + len * cos b, sh_y1 := sh_y0 sh + len * sin b\<rparr>"
  have first: "constrainWithShift exactArith sh True = sh'"
    using constrain_line [OF assms] by (simp add: sh'_def len_def b_def)
  have l0: "0 \<le> len" by (simp add: len_def hypot_nonneg)
  have bs: "b \<in> set (snaps exactArith)" using snap_best_nearest by (simp add: b_def)
  have k: "sh_shape sh' = ShLine" using assms by (simp add: sh'_def)
  have d: "sh_x1 sh' - sh_x0 sh = len * cos b" "sh_y1 sh' - sh_y0 sh = len * sin b"
          "sh_x0 sh' = sh_x0 sh" "sh_y0 sh' = sh_y0 sh"
    by (simp_all add: sh'_def)
  have h: "hypot (len * cos b) (len * sin b) = len" using l0 by (rule hypot_polar)
  have again: "len * cos (snap_best exactArith (atan2 (len * sin b) (len * cos b))) = len * cos b
      \<and> len * sin (snap_best exactArith (atan2 (len * sin b) (len * cos b))) = len * sin b"
  proof (cases "len = 0")
    case True
    then show ?thesis by simp
  next
    case False
    then have "0 < len" using l0 by simp
    then have "atan2 (len * sin b) (len * cos b) = b"
      using snaps_range [OF bs] by (intro atan2_polar) simp_all
    then show ?thesis using snap_best_fix [OF bs] by simp
  qed
  have "constrainWithShift exactArith sh' True =
        sh'\<lparr>sh_x1 := sh_x0 sh + len * cos b, sh_y1 := sh_y0 sh + len * sin b\<rparr>"
    unfolding constrain_line [OF k] by (simp only: d h again)
  also have "\<dots> = sh'" by (simp add: sh'_def)
  finally show ?thesis by (simp add: first)
qed

lemma box_idempotent:
  assumes "sh_shape sh \<noteq> ShLine"
  shows "constrainWithShift exactArith (constrainWithShift exactArith sh True) True = constrainWithShift exactArith sh True"
proof -
  define w where "w = sh_x1 sh - sh_x0 sh"
  define h where "h = sh_y1 sh - sh_y0 sh"
  define m where "m = min \<bar>w\<bar> \<bar>h\<bar>"
  define sh' where "sh' = sh\<lparr>sh_x1 := sh_x0 sh + sgn w * m, sh_y1 := sh_y0 sh + sgn h * m\<rparr>"
  have first: "constrainWithShift exactArith sh True = sh'"
    using constrain_box [OF assms] by (simp add: sh'_def w_def h_def m_def)
  have k: "sh_shape sh' \<noteq> ShLine" using assms by (simp add: sh'_def)
  have d: "sh_x1 sh' - sh_x0 sh = sgn w * m" "sh_y1 sh' - sh_y0 sh = sgn h * m"
          "sh_x0 sh' = sh_x0 sh" "sh_y0 sh' = sh_y0 sh"
    by (simp_all add: sh'_def)
  have m0: "0 \<le> m" by (simp add: m_def)
  have aw: "\<bar>sgn w * m\<bar> = m" using m0 by (cases "w = 0") (auto simp: abs_mult m_def)
  have ah: "\<bar>sgn h * m\<bar> = m" using m0 by (cases "h = 0") (auto simp: abs_mult m_def)
  have sw: "sgn (sgn w * m) * m = sgn w * m" using m0 by (cases "m = 0") (auto simp: sgn_mult)
  have sh: "sgn (sgn h * m) * m = sgn h * m" using m0 by (cases "m = 0") (auto simp: sgn_mult)
  have "constrainWithShift exactArith sh' True =
        sh'\<lparr>sh_x1 := sh_x0 sh + sgn w * m, sh_y1 := sh_y0 sh + sgn h * m\<rparr>"
    unfolding constrain_box [OF k] by (simp only: d aw ah min.idem sw sh)
  also have "\<dots> = sh'" by (simp add: sh'_def)
  finally show ?thesis by (simp add: first)
qed
















lemma constrain_box_fl:
  assumes "sh_shape sh \<noteq> ShLine"
  shows "constrainWithShift ar sh True =
         sh\<lparr>sh_x1 := ar_fl ar (sh_x0 sh + ar_fl ar (sgn (ar_fl ar (sh_x1 sh - sh_x0 sh))
                        * min \<bar>ar_fl ar (sh_x1 sh - sh_x0 sh)\<bar> \<bar>ar_fl ar (sh_y1 sh - sh_y0 sh)\<bar>)),
            sh_y1 := ar_fl ar (sh_y0 sh + ar_fl ar (sgn (ar_fl ar (sh_y1 sh - sh_y0 sh))
                        * min \<bar>ar_fl ar (sh_x1 sh - sh_x0 sh)\<bar> \<bar>ar_fl ar (sh_y1 sh - sh_y0 sh)\<bar>))\<rparr>"
  using assms by (simp add: constrainWithShift_def Let_def)

lemma box_unrounded_rule:
  assumes "sh_shape sh \<noteq> ShLine" and "box_unrounded (ar_fl ar) sh"
  shows "constrainWithShift ar sh True =
         sh\<lparr>sh_x1 := sh_x0 sh + sgn (sh_x1 sh - sh_x0 sh)
                        * min \<bar>sh_x1 sh - sh_x0 sh\<bar> \<bar>sh_y1 sh - sh_y0 sh\<bar>,
            sh_y1 := sh_y0 sh + sgn (sh_y1 sh - sh_y0 sh)
                        * min \<bar>sh_x1 sh - sh_x0 sh\<bar> \<bar>sh_y1 sh - sh_y0 sh\<bar>\<rparr>"
proof -
  from assms(2) have u:
    "ar_fl ar (sh_x1 sh - sh_x0 sh) = sh_x1 sh - sh_x0 sh"
    "ar_fl ar (sh_y1 sh - sh_y0 sh) = sh_y1 sh - sh_y0 sh"
    "ar_fl ar (sgn (sh_x1 sh - sh_x0 sh) * min \<bar>sh_x1 sh - sh_x0 sh\<bar> \<bar>sh_y1 sh - sh_y0 sh\<bar>)
       = sgn (sh_x1 sh - sh_x0 sh) * min \<bar>sh_x1 sh - sh_x0 sh\<bar> \<bar>sh_y1 sh - sh_y0 sh\<bar>"
    "ar_fl ar (sgn (sh_y1 sh - sh_y0 sh) * min \<bar>sh_x1 sh - sh_x0 sh\<bar> \<bar>sh_y1 sh - sh_y0 sh\<bar>)
       = sgn (sh_y1 sh - sh_y0 sh) * min \<bar>sh_x1 sh - sh_x0 sh\<bar> \<bar>sh_y1 sh - sh_y0 sh\<bar>"
    "ar_fl ar (sh_x0 sh + sgn (sh_x1 sh - sh_x0 sh)
        * min \<bar>sh_x1 sh - sh_x0 sh\<bar> \<bar>sh_y1 sh - sh_y0 sh\<bar>)
       = sh_x0 sh + sgn (sh_x1 sh - sh_x0 sh) * min \<bar>sh_x1 sh - sh_x0 sh\<bar> \<bar>sh_y1 sh - sh_y0 sh\<bar>"
    "ar_fl ar (sh_y0 sh + sgn (sh_y1 sh - sh_y0 sh)
        * min \<bar>sh_x1 sh - sh_x0 sh\<bar> \<bar>sh_y1 sh - sh_y0 sh\<bar>)
       = sh_y0 sh + sgn (sh_y1 sh - sh_y0 sh) * min \<bar>sh_x1 sh - sh_x0 sh\<bar> \<bar>sh_y1 sh - sh_y0 sh\<bar>"
    unfolding box_unrounded_def Let_def by blast+
  show ?thesis unfolding constrain_box_fl [OF assms(1)] by (simp only: u)
qed

lemma box_unrounded_again:
  assumes "sh_shape sh \<noteq> ShLine" and "box_unrounded fl sh"
  shows "box_unrounded fl
           (sh\<lparr>sh_x1 := sh_x0 sh + sgn (sh_x1 sh - sh_x0 sh)
                              * min \<bar>sh_x1 sh - sh_x0 sh\<bar> \<bar>sh_y1 sh - sh_y0 sh\<bar>,
                sh_y1 := sh_y0 sh + sgn (sh_y1 sh - sh_y0 sh)
                              * min \<bar>sh_x1 sh - sh_x0 sh\<bar> \<bar>sh_y1 sh - sh_y0 sh\<bar>\<rparr>)"
proof -
  define w where "w = sh_x1 sh - sh_x0 sh"
  define h where "h = sh_y1 sh - sh_y0 sh"
  define m where "m = min \<bar>w\<bar> \<bar>h\<bar>"
  from assms(2) have u: "fl (sgn w * m) = sgn w * m" "fl (sgn h * m) = sgn h * m"
    "fl (sh_x0 sh + sgn w * m) = sh_x0 sh + sgn w * m"
    "fl (sh_y0 sh + sgn h * m) = sh_y0 sh + sgn h * m"
    unfolding box_unrounded_def Let_def w_def h_def m_def by blast+
  have m0: "0 \<le> m" by (simp add: m_def)
  have aw: "\<bar>sgn w * m\<bar> = m" using m0 by (cases "w = 0") (auto simp: abs_mult m_def)
  have ah: "\<bar>sgn h * m\<bar> = m" using m0 by (cases "h = 0") (auto simp: abs_mult m_def)
  have sw: "sgn (sgn w * m) * m = sgn w * m" using m0 by (cases "m = 0") (auto simp: sgn_mult)
  have sh: "sgn (sgn h * m) * m = sgn h * m" using m0 by (cases "m = 0") (auto simp: sgn_mult)
  have "box_unrounded fl (sh\<lparr>sh_x1 := sh_x0 sh + sgn w * m, sh_y1 := sh_y0 sh + sgn h * m\<rparr>)"
    unfolding box_unrounded_def Let_def
    by (simp add: aw ah sw sh u)
  then show ?thesis unfolding w_def h_def m_def .
qed

lemma box_unrounded_fixed:
  assumes "sh_shape sh \<noteq> ShLine" and "box_unrounded (ar_fl ar) sh"
  shows "constrainWithShift ar (constrainWithShift ar sh True) True = constrainWithShift ar sh True"
proof -
  define w where "w = sh_x1 sh - sh_x0 sh"
  define h where "h = sh_y1 sh - sh_y0 sh"
  define m where "m = min \<bar>w\<bar> \<bar>h\<bar>"
  define sh' where "sh' = sh\<lparr>sh_x1 := sh_x0 sh + sgn w * m, sh_y1 := sh_y0 sh + sgn h * m\<rparr>"
  have first: "constrainWithShift ar sh True = sh'"
    using box_unrounded_rule [OF assms] by (simp add: sh'_def w_def h_def m_def)
  have k: "sh_shape sh' \<noteq> ShLine" using assms(1) by (simp add: sh'_def)
  have u: "box_unrounded (ar_fl ar) sh'"
    using box_unrounded_again [OF assms] by (simp add: sh'_def w_def h_def m_def)
  have d: "sh_x1 sh' - sh_x0 sh = sgn w * m" "sh_y1 sh' - sh_y0 sh = sgn h * m"
          "sh_x0 sh' = sh_x0 sh" "sh_y0 sh' = sh_y0 sh"
    by (simp_all add: sh'_def)
  have m0: "0 \<le> m" by (simp add: m_def)
  have aw: "\<bar>sgn w * m\<bar> = m" using m0 by (cases "w = 0") (auto simp: abs_mult m_def)
  have ah: "\<bar>sgn h * m\<bar> = m" using m0 by (cases "h = 0") (auto simp: abs_mult m_def)
  have sw: "sgn (sgn w * m) * m = sgn w * m" using m0 by (cases "m = 0") (auto simp: sgn_mult)
  have sh: "sgn (sgn h * m) * m = sgn h * m" using m0 by (cases "m = 0") (auto simp: sgn_mult)
  have "constrainWithShift ar sh' True =
        sh'\<lparr>sh_x1 := sh_x0 sh + sgn w * m, sh_y1 := sh_y0 sh + sgn h * m\<rparr>"
    unfolding box_unrounded_rule [OF k u] by (simp only: d aw ah min.idem sw sh)
  also have "\<dots> = sh'" by (simp add: sh'_def)
  finally show ?thesis by (simp add: first)
qed

lemma box_unrounded_id: "box_unrounded id sh"
  by (simp add: box_unrounded_def Let_def)

lemma double_simps:
  "ar_fl doubleArith = double_round"
  by (simp add: doubleArith_def)

lemma box_unrounded_exampleRect: "box_unrounded double_round exampleRect"
  by (simp add: box_unrounded_def Let_def exampleRect_def exampleLine_def double_round_numeral)

lemma constrain_exampleRect:
  "constrainWithShift doubleArith exampleRect True = exampleRect\<lparr>sh_x1 := 4, sh_y1 := 4\<rparr>"
proof -
  have k: "sh_shape exampleRect \<noteq> ShLine" by (simp add: exampleRect_def)
  have u: "box_unrounded (ar_fl doubleArith) exampleRect"
    unfolding double_simps by (rule box_unrounded_exampleRect)
  show ?thesis
    unfolding box_unrounded_rule [OF k u] by (simp add: exampleRect_def exampleLine_def)
qed

lemma bx1: "double_round (1 / 2) = 1 / 2"
  by (subst double_round_by_ulp [where e = "- 1" and u = "1 / 9007199254740992"])
     (simp_all add: round_even_def powr_minus_divide)

lemma bx2: "double_round (10808639105689191 / 18014398509481984) = 1351079888211149 / 2251799813685248"
  by (subst double_round_by_ulp [where e = "- 1" and u = "1 / 9007199254740992"])
     (simp_all add: round_even_def powr_minus_divide)

lemma bx3: "double_round (12610078956637389 / 18014398509481984) = 3152519739159347 / 4503599627370496"
  by (subst double_round_by_ulp [where e = "- 1" and u = "1 / 9007199254740992"])
     (simp_all add: round_even_def powr_minus_divide)

lemma bx4: "double_round (9007199254740991 / 18014398509481984) = 9007199254740991 / 18014398509481984"
  by (subst double_round_by_ulp [where e = "- 2" and u = "1 / 18014398509481984"])
     (simp_all add: round_even_def powr_minus_divide)

lemma bx5: "double_round (3152519739159347 / 4503599627370496) = 3152519739159347 / 4503599627370496"
  by (subst double_round_by_ulp [where e = "- 1" and u = "1 / 9007199254740992"])
     (simp_all add: round_even_def powr_minus_divide)

lemmas rounded_box = bx1 bx2 bx3 bx4 bx5

lemma constrain_roundedRect:
  "constrainWithShift doubleArith roundedRect True
     = roundedRect\<lparr>sh_x1 := 1 / 2, sh_y1 := 3152519739159347 / 4503599627370496\<rparr>"
proof -
  have k: "sh_shape roundedRect \<noteq> ShLine"
    by (simp add: roundedRect_def exampleRect_def)
  show ?thesis
    unfolding constrain_box_fl [OF k] double_simps
    by (simp add: roundedRect_def exampleRect_def exampleLine_def rounded_box double_round_0)
qed

lemma constrain_roundedRect_twice:
  "constrainWithShift doubleArith
       (roundedRect\<lparr>sh_x1 := 1 / 2, sh_y1 := 3152519739159347 / 4503599627370496\<rparr>) True
     = roundedRect\<lparr>sh_x1 := 9007199254740991 / 18014398509481984,
                   sh_y1 := 3152519739159347 / 4503599627370496\<rparr>"
proof -
  have k: "sh_shape (roundedRect\<lparr>sh_x1 := 1 / 2, sh_y1 := 3152519739159347 / 4503599627370496\<rparr>)
           \<noteq> ShLine"
    by (simp add: roundedRect_def exampleRect_def)
  show ?thesis
    unfolding constrain_box_fl [OF k] double_simps
    by (simp add: roundedRect_def exampleRect_def exampleLine_def rounded_box double_round_0)
qed

lemma constrainWithShiftRef_pure:
  assumes "constrainWithShiftRef ar r shift s = Some (r', s')"
  shows "(\<exists>shape. heap s r = Some (Shape shape)
             \<and> heap s' r' = Some (Shape (constrainWithShift ar shape shift)))
         \<and> (\<not> shift \<longrightarrow> r' = r \<and> s' = s)
         \<and> (shift \<longrightarrow> r' = nextRef s)
         \<and> (\<forall>q. q < nextRef s \<longrightarrow> heap s' q = heap s q)
         \<and> s'\<lparr>heap := heap s, nextRef := nextRef s\<rparr> = s"
proof -
  from assms obtain shape where h: "heap s r = Some (Shape shape)"
    by (auto simp: constrainWithShiftRef_def split: option.splits Op.splits)
  show ?thesis
  proof (cases shift)
    case True
    then have "r' = nextRef s"
      and "s' = s\<lparr>heap := (heap s)(nextRef s \<mapsto> Shape (constrainWithShift ar shape shift)),
                  nextRef := Suc (nextRef s)\<rparr>"
      using assms h by (auto simp: constrainWithShiftRef_def alloc_def)
    then show ?thesis using True h by simp
  next
    case False
    then have "r' = r" "s' = s" using assms h by (simp_all add: constrainWithShiftRef_def)
    then show ?thesis
      using False h by (simp add: constrainWithShift_def)
  qed
qed

text \<open>
  Claim C6, amended. With the constraint inactive \<open>constrainWithShift\<close> returns its input,
  in any arithmetic. It has no side effect: called on an object of the store it returns
  that object itself when the constraint is inactive and a new object otherwise; every
  object that existed before is unchanged, and so is the rest of the state. In exact
  arithmetic, applying it with the constraint active to its own result changes nothing,
  and no result of the rect and ellipse branch is rounded. In any arithmetic, for a rect
  or an ellipse on which no result of the branch is rounded, the result keeps the start
  point and every other field, its width and height are the smaller of \<open>\<bar>\<Delta>x\<bar>\<close> and
  \<open>\<bar>\<Delta>y\<bar>\<close>, each with the sign of the original \<open>\<Delta>x\<close> or \<open>\<Delta>y\<close>, and applying the function
  to the result changes nothing. An example in double arithmetic is the rect
  \<open>(0,0)-(10,4)\<close>, which becomes \<open>(0,0)-(4,4)\<close>.
\<close>

theorem constrain_pure_stable:
  "constrainWithShift ar sh False = sh
   \<and> (constrainWithShiftRef ar r shift s = Some (r', s') \<longrightarrow>
        (\<exists>shape. heap s r = Some (Shape shape)
            \<and> heap s' r' = Some (Shape (constrainWithShift ar shape shift)))
        \<and> (\<not> shift \<longrightarrow> r' = r \<and> s' = s)
        \<and> (shift \<longrightarrow> r' = nextRef s)
        \<and> (\<forall>q. q < nextRef s \<longrightarrow> heap s' q = heap s q)
        \<and> s'\<lparr>heap := heap s, nextRef := nextRef s\<rparr> = s)
   \<and> constrainWithShift exactArith (constrainWithShift exactArith sh True) True
        = constrainWithShift exactArith sh True
   \<and> box_unrounded (ar_fl exactArith) sh
   \<and> (sh_shape sh \<noteq> ShLine \<and> box_unrounded (ar_fl ar) sh \<longrightarrow>
        (let dx = sh_x1 sh - sh_x0 sh; dy = sh_y1 sh - sh_y0 sh;
             c = constrainWithShift ar sh True
         in sh_x0 c = sh_x0 sh \<and> sh_y0 c = sh_y0 sh
            \<and> sh_x1 c - sh_x0 c = sgn dx * min \<bar>dx\<bar> \<bar>dy\<bar>
            \<and> sh_y1 c - sh_y0 c = sgn dy * min \<bar>dx\<bar> \<bar>dy\<bar>
            \<and> \<bar>sh_x1 c - sh_x0 c\<bar> = min \<bar>dx\<bar> \<bar>dy\<bar>
            \<and> \<bar>sh_y1 c - sh_y0 c\<bar> = min \<bar>dx\<bar> \<bar>dy\<bar>
            \<and> c = sh\<lparr>sh_x1 := sh_x1 c, sh_y1 := sh_y1 c\<rparr>
            \<and> constrainWithShift ar c True = c))
   \<and> box_unrounded (ar_fl doubleArith) exampleRect
   \<and> constrainWithShift doubleArith exampleRect True = exampleRect\<lparr>sh_x1 := 4, sh_y1 := 4\<rparr>"
proof (intro conjI impI)
  show "constrainWithShift ar sh False = sh" by (simp add: constrainWithShift_def)
  show "constrainWithShift exactArith (constrainWithShift exactArith sh True) True
        = constrainWithShift exactArith sh True"
    by (cases "sh_shape sh = ShLine") (simp_all add: line_idempotent box_idempotent)
  show "box_unrounded (ar_fl exactArith) sh"
    unfolding exact_simps by (rule box_unrounded_id)
  show "box_unrounded (ar_fl doubleArith) exampleRect"
    unfolding double_simps by (rule box_unrounded_exampleRect)
  show "constrainWithShift doubleArith exampleRect True = exampleRect\<lparr>sh_x1 := 4, sh_y1 := 4\<rparr>"
    by (rule constrain_exampleRect)
next
  assume a: "constrainWithShiftRef ar r shift s = Some (r', s')"
  note p = constrainWithShiftRef_pure [OF a]
  show "\<exists>shape. heap s r = Some (Shape shape)
            \<and> heap s' r' = Some (Shape (constrainWithShift ar shape shift))"
    using p by blast
  show "r' = r" if "\<not> shift" using p that by blast
  show "s' = s" if "\<not> shift" using p that by blast
  show "r' = nextRef s" if shift using p that by blast
  show "\<forall>q. q < nextRef s \<longrightarrow> heap s' q = heap s q" using p by blast
  show "s'\<lparr>heap := heap s, nextRef := nextRef s\<rparr> = s" using p by blast
next
  assume a: "sh_shape sh \<noteq> ShLine \<and> box_unrounded (ar_fl ar) sh"
  then have k: "sh_shape sh \<noteq> ShLine" and u: "box_unrounded (ar_fl ar) sh" by blast+
  define w where "w = sh_x1 sh - sh_x0 sh"
  define h where "h = sh_y1 sh - sh_y0 sh"
  have aw: "\<bar>sgn w * min \<bar>w\<bar> \<bar>h\<bar>\<bar> = min \<bar>w\<bar> \<bar>h\<bar>" by (cases "w = 0") (auto simp: abs_mult)
  have ah: "\<bar>sgn h * min \<bar>w\<bar> \<bar>h\<bar>\<bar> = min \<bar>w\<bar> \<bar>h\<bar>" by (cases "h = 0") (auto simp: abs_mult)
  have f: "constrainWithShift ar (constrainWithShift ar sh True) True = constrainWithShift ar sh True"
    using k u by (rule box_unrounded_fixed)
  have "let dx = sh_x1 sh - sh_x0 sh; dy = sh_y1 sh - sh_y0 sh;
             c = constrainWithShift ar sh True
         in sh_x0 c = sh_x0 sh \<and> sh_y0 c = sh_y0 sh
            \<and> sh_x1 c - sh_x0 c = sgn dx * min \<bar>dx\<bar> \<bar>dy\<bar>
            \<and> sh_y1 c - sh_y0 c = sgn dy * min \<bar>dx\<bar> \<bar>dy\<bar>
            \<and> \<bar>sh_x1 c - sh_x0 c\<bar> = min \<bar>dx\<bar> \<bar>dy\<bar>
            \<and> \<bar>sh_y1 c - sh_y0 c\<bar> = min \<bar>dx\<bar> \<bar>dy\<bar>
            \<and> c = sh\<lparr>sh_x1 := sh_x1 c, sh_y1 := sh_y1 c\<rparr>"
    unfolding Let_def box_unrounded_rule [OF k u]
    using aw ah by (simp add: w_def h_def)
  then show "let dx = sh_x1 sh - sh_x0 sh; dy = sh_y1 sh - sh_y0 sh;
             c = constrainWithShift ar sh True
         in sh_x0 c = sh_x0 sh \<and> sh_y0 c = sh_y0 sh
            \<and> sh_x1 c - sh_x0 c = sgn dx * min \<bar>dx\<bar> \<bar>dy\<bar>
            \<and> sh_y1 c - sh_y0 c = sgn dy * min \<bar>dx\<bar> \<bar>dy\<bar>
            \<and> \<bar>sh_x1 c - sh_x0 c\<bar> = min \<bar>dx\<bar> \<bar>dy\<bar>
            \<and> \<bar>sh_y1 c - sh_y0 c\<bar> = min \<bar>dx\<bar> \<bar>dy\<bar>
            \<and> c = sh\<lparr>sh_x1 := sh_x1 c, sh_y1 := sh_y1 c\<rparr>
            \<and> constrainWithShift ar c True = c"
    unfolding Let_def using f by blast
qed

theorem constrain_pure_stable_witness:
  "constrainWithShiftRef doubleArith 0 True twoLayers
     = Some (3, twoLayers\<lparr>heap := (heap twoLayers)(3 \<mapsto> Shape (exampleRect\<lparr>sh_x1 := 4, sh_y1 := 4\<rparr>)),
                         nextRef := 4\<rparr>)
   \<and> heap twoLayers 0 = Some (Shape exampleRect)
   \<and> nextRef twoLayers = 3
   \<and> sh_shape exampleRect \<noteq> ShLine
   \<and> box_unrounded (ar_fl doubleArith) exampleRect
   \<and> constrainWithShift doubleArith exampleRect True = exampleRect\<lparr>sh_x1 := 4, sh_y1 := 4\<rparr>
   \<and> constrainWithShift doubleArith (exampleRect\<lparr>sh_x1 := 4, sh_y1 := 4\<rparr>) True
       = exampleRect\<lparr>sh_x1 := 4, sh_y1 := 4\<rparr>"
proof -
  let ?s' = "twoLayers\<lparr>heap := (heap twoLayers)(3 \<mapsto> Shape (exampleRect\<lparr>sh_x1 := 4, sh_y1 := 4\<rparr>)),
                       nextRef := 4\<rparr>"
  have k: "sh_shape exampleRect \<noteq> ShLine" by (simp add: exampleRect_def)
  have e: "heap twoLayers 0 = Some (Shape exampleRect)" "nextRef twoLayers = 3"
    by (simp_all add: twoLayers_def exampleShape_def exampleRect_def exampleLine_def)
  have c: "constrainWithShiftRef doubleArith 0 True twoLayers = Some (3, ?s')"
    using e constrain_exampleRect by (simp add: constrainWithShiftRef_def alloc_def)
  note t = constrain_pure_stable [where ar = doubleArith and sh = exampleRect and r = 0
      and shift = True and s = twoLayers and r' = 3 and s' = ?s']
  from t have u: "box_unrounded (ar_fl doubleArith) exampleRect"
    and x: "constrainWithShift doubleArith exampleRect True = exampleRect\<lparr>sh_x1 := 4, sh_y1 := 4\<rparr>"
    by blast+
  from t k u have "constrainWithShift doubleArith (constrainWithShift doubleArith exampleRect True) True
      = constrainWithShift doubleArith exampleRect True"
    unfolding Let_def by blast
  then have i: "constrainWithShift doubleArith (exampleRect\<lparr>sh_x1 := 4, sh_y1 := 4\<rparr>) True
       = exampleRect\<lparr>sh_x1 := 4, sh_y1 := 4\<rparr>"
    unfolding x .
  show ?thesis using c e k u x i by (simp only: simp_thms)
qed

text \<open>
  Claim C6 as stated, for every shape, fails in the double arithmetic of the source. The
  rect from \<open>(0, 0.2)\<close> to \<open>(0.5, 0.8)\<close> becomes the rect from \<open>(0, 0.2)\<close> to \<open>(0.5, 0.7)\<close>,
  because \<open>0.2 + 0.5\<close> rounds down to the double \<open>0.7\<close>. Its width is \<open>0.5\<close>, but its height,
  the exact difference of the doubles \<open>0.7\<close> and \<open>0.2\<close>, is \<open>0.49999999999999994\<close>: the sides
  differ and the height is not the smaller of \<open>\<bar>\<Delta>x\<bar>\<close> and \<open>\<bar>\<Delta>y\<bar>\<close>, which is \<open>0.5\<close>. A second
  application moves \<open>x1\<close> from \<open>0.5\<close> to \<open>0.49999999999999994\<close>, so the function is not
  idempotent.
\<close>

theorem constrain_rounding_counterexample:
  "sh_shape roundedRect \<noteq> ShLine
   \<and> constrainWithShift doubleArith roundedRect True
       = roundedRect\<lparr>sh_x1 := 1 / 2, sh_y1 := 3152519739159347 / 4503599627370496\<rparr>
   \<and> constrainWithShift doubleArith (constrainWithShift doubleArith roundedRect True) True
       = roundedRect\<lparr>sh_x1 := 9007199254740991 / 18014398509481984,
                     sh_y1 := 3152519739159347 / 4503599627370496\<rparr>
   \<and> constrainWithShift doubleArith (constrainWithShift doubleArith roundedRect True) True
       \<noteq> constrainWithShift doubleArith roundedRect True
   \<and> \<bar>sh_x1 (constrainWithShift doubleArith roundedRect True)
        - sh_x0 (constrainWithShift doubleArith roundedRect True)\<bar>
       \<noteq> \<bar>sh_y1 (constrainWithShift doubleArith roundedRect True)
           - sh_y0 (constrainWithShift doubleArith roundedRect True)\<bar>
   \<and> \<bar>sh_y1 (constrainWithShift doubleArith roundedRect True)
        - sh_y0 (constrainWithShift doubleArith roundedRect True)\<bar>
       \<noteq> min \<bar>sh_x1 roundedRect - sh_x0 roundedRect\<bar> \<bar>sh_y1 roundedRect - sh_y0 roundedRect\<bar>"
proof -
  have k: "sh_shape roundedRect \<noteq> ShLine" by (simp add: roundedRect_def exampleRect_def)
  note o = constrain_roundedRect
  have t: "constrainWithShift doubleArith (constrainWithShift doubleArith roundedRect True) True
       = roundedRect\<lparr>sh_x1 := 9007199254740991 / 18014398509481984,
                     sh_y1 := 3152519739159347 / 4503599627370496\<rparr>"
    unfolding o by (rule constrain_roundedRect_twice)
  have x2: "sh_x1 (constrainWithShift doubleArith (constrainWithShift doubleArith roundedRect True) True)
            = 9007199254740991 / 18014398509481984"
    by (simp only: t) simp
  have x1: "sh_x1 (constrainWithShift doubleArith roundedRect True) = 1 / 2"
    by (simp only: o) simp
  have n: "constrainWithShift doubleArith (constrainWithShift doubleArith roundedRect True) True
       \<noteq> constrainWithShift doubleArith roundedRect True"
  proof
    assume "constrainWithShift doubleArith (constrainWithShift doubleArith roundedRect True) True
       = constrainWithShift doubleArith roundedRect True"
    then have "sh_x1 (constrainWithShift doubleArith (constrainWithShift doubleArith roundedRect True) True)
       = sh_x1 (constrainWithShift doubleArith roundedRect True)"
      by (rule arg_cong)
    then show False unfolding x2 x1 by simp
  qed
  have s: "\<bar>sh_x1 (constrainWithShift doubleArith roundedRect True)
        - sh_x0 (constrainWithShift doubleArith roundedRect True)\<bar>
       \<noteq> \<bar>sh_y1 (constrainWithShift doubleArith roundedRect True)
           - sh_y0 (constrainWithShift doubleArith roundedRect True)\<bar>"
    unfolding o by (simp add: roundedRect_def)
  have m: "\<bar>sh_y1 (constrainWithShift doubleArith roundedRect True)
        - sh_y0 (constrainWithShift doubleArith roundedRect True)\<bar>
       \<noteq> min \<bar>sh_x1 roundedRect - sh_x0 roundedRect\<bar> \<bar>sh_y1 roundedRect - sh_y0 roundedRect\<bar>"
    unfolding o by (simp add: roundedRect_def)
  show ?thesis using k o t n s m by (simp only: simp_thms)
qed

subsection \<open>Simplification\<close>

lemma foldl_rdp_step:
  "fst acc \<le> fst (foldl (rdp_step fl pts e) acc js)
   \<and> (\<forall>j \<in> set js. distSqToSegment fl (pts ! j) (pts ! 0) (pts ! e) \<le> fst (foldl (rdp_step fl pts e) acc js))
   \<and> (foldl (rdp_step fl pts e) acc js = acc
        \<or> snd (foldl (rdp_step fl pts e) acc js) \<in> set js \<and> fst acc < fst (foldl (rdp_step fl pts e) acc js))"
proof (induction js arbitrary: acc)
  case Nil
  then show ?case by simp
next
  case (Cons j js)
  let ?acc' = "rdp_step fl pts e acc j"
  have s: "fst acc \<le> fst ?acc'" "distSqToSegment fl (pts ! j) (pts ! 0) (pts ! e) \<le> fst ?acc'"
    "?acc' = acc \<or> snd ?acc' = j \<and> fst acc < fst ?acc'"
    by (auto simp: rdp_step_def Let_def)
  from Cons.IH [of ?acc'] s show ?case by (auto simp: )
qed

lemma rdp_scan_props:
  "0 \<le> fst (rdp_scan fl pts)"
  "\<forall>j. 1 \<le> j \<and> j < length pts - 1 \<longrightarrow>
        distSqToSegment fl (pts ! j) (pts ! 0) (pts ! (length pts - 1)) \<le> fst (rdp_scan fl pts)"
  "0 < fst (rdp_scan fl pts) \<Longrightarrow> 1 \<le> snd (rdp_scan fl pts) \<and> snd (rdp_scan fl pts) < length pts - 1"
  using foldl_rdp_step [where acc = "(0, 0)" and fl = fl and pts = pts and e = "length pts - 1"
      and js = "[1 ..< length pts - 1]"]
  by (auto simp: rdp_scan_def)

lemma join_runs_ends:
  assumes "runs \<noteq> []" and "\<forall>r \<in> set runs. 2 \<le> length r"
  shows "join_runs runs \<noteq> [] \<and> hd (join_runs runs) = hd (hd runs)
         \<and> last (join_runs runs) = last (last runs)"
  using assms
proof (induction runs rule: join_runs.induct)
  case 1
  then show ?case by simp
next
  case (2 r)
  then show ?case by auto
next
  case (3 r r' rs)
  then have "butlast r \<noteq> []" by (cases r rule: rev_cases) auto
  moreover have "hd (butlast r) = hd r" using 3 by (cases r) auto
  ultimately show ?case using 3 by simp
qed

lemma join_runs_append:
  assumes "runs1 \<noteq> []" and "runs2 \<noteq> []" and "\<forall>r \<in> set runs1. 2 \<le> length r"
  shows "join_runs (runs1 @ runs2) = butlast (join_runs runs1) @ join_runs runs2"
  using assms
proof (induction runs1 rule: join_runs.induct)
  case 1
  then show ?case by simp
next
  case (2 r)
  then show ?case by (cases runs2) simp_all
next
  case (3 r r' rs)
  have "join_runs (r' # rs) \<noteq> []" using join_runs_ends [of "r' # rs"] 3 by simp
  then show ?case using 3 by (simp add: butlast_append)
qed

lemma chained_append:
  assumes "chained runs1" and "chained runs2" and "runs1 \<noteq> []" and "runs2 \<noteq> []"
    and "last (last runs1) = hd (hd runs2)"
  shows "chained (runs1 @ runs2)"
  using assms
proof (induction runs1 rule: chained.induct)
  case 1
  then show ?case by simp
next
  case (2 r)
  then show ?case by (cases runs2) simp_all
next
  case (3 r r' rs)
  then show ?case by simp
qed

lemma kept_vertices_append:
  assumes "runs2 \<noteq> []"
  shows "kept_vertices (runs1 @ runs2) = butlast (kept_vertices runs1) @ kept_vertices runs2"
  using assms by (simp add: kept_vertices_def)

lemma within_tolerance_length: "within_tolerance dst e run \<Longrightarrow> 2 \<le> length run"
  by (simp add: within_tolerance_def)

lemma rdp_bound_append:
  assumes "rdp_bound dst e left ys1" and "rdp_bound dst e right ys2"
    and "last left = hd right"
  shows "rdp_bound dst e (butlast left @ right) (butlast ys1 @ ys2)"
proof -
  from assms(1) obtain runs1 where 1: "runs1 \<noteq> []" "chained runs1"
      "\<forall>run \<in> set runs1. within_tolerance dst e run" "join_runs runs1 = left"
      "kept_vertices runs1 = ys1"
    unfolding rdp_bound_def by blast
  from assms(2) obtain runs2 where 2: "runs2 \<noteq> []" "chained runs2"
      "\<forall>run \<in> set runs2. within_tolerance dst e run" "join_runs runs2 = right"
      "kept_vertices runs2 = ys2"
    unfolding rdp_bound_def by blast
  have l1: "\<forall>r \<in> set runs1. 2 \<le> length r" using 1(3) within_tolerance_length by blast
  have l2: "\<forall>r \<in> set runs2. 2 \<le> length r" using 2(3) within_tolerance_length by blast
  have "last (last runs1) = hd (hd runs2)"
    using join_runs_ends [OF 1(1) l1] join_runs_ends [OF 2(1) l2] assms(3) 1(4) 2(4) by simp
  then have "chained (runs1 @ runs2)" using 1 2 by (intro chained_append)
  moreover have "join_runs (runs1 @ runs2) = butlast left @ right"
    using join_runs_append [OF 1(1) 2(1) l1] 1(4) 2(4) by simp
  moreover have "kept_vertices (runs1 @ runs2) = butlast ys1 @ ys2"
    using kept_vertices_append [OF 2(1)] 1(5) 2(5) by simp
  moreover have "\<forall>run \<in> set (runs1 @ runs2). within_tolerance dst e run"
    using 1(3) 2(3) by auto
  ultimately show ?thesis unfolding rdp_bound_def using 1(1) by blast
qed

lemma rdp_bound_single:
  assumes "2 \<le> length pts"
    and "\<forall>j. 1 \<le> j \<and> j < length pts - 1 \<longrightarrow> dst (pts ! j) (pts ! 0) (pts ! (length pts - 1)) \<le> e"
  shows "rdp_bound dst e pts [pts ! 0, pts ! (length pts - 1)]"
proof -
  have ne: "pts \<noteq> []" using assms(1) by auto
  have h: "hd pts = pts ! 0" "last pts = pts ! (length pts - 1)"
    using ne by (simp_all add: hd_conv_nth last_conv_nth)
  have "dst p (hd pts) (last pts) \<le> e" if "p \<in> set (butlast (tl pts))" for p
  proof -
    from that obtain i where i: "i < length (butlast (tl pts))" "p = butlast (tl pts) ! i"
      by (auto simp: in_set_conv_nth)
    then have "i < length pts - 2" by simp
    moreover have "p = pts ! (Suc i)" using i by (simp add: nth_butlast nth_tl)
    ultimately show ?thesis using assms(2) [rule_format, of "Suc i"] h by simp
  qed
  then have "within_tolerance dst e pts" using assms(1) by (simp add: within_tolerance_def)
  then show ?thesis unfolding rdp_bound_def
    by (intro exI [where x = "[pts]"]) (simp add: kept_vertices_def h)
qed

lemma rdp_returns_bound:
  assumes "0 \<le> epsSq" and "2 \<le> length pts"
  shows "\<exists>ys. rdp fl pts epsSq = Some ys \<and> rdp_bound (distSqToSegment fl) epsSq pts ys"
  using assms(2)
proof (induction "length pts" arbitrary: pts rule: less_induct)
  case less
  let ?n = "length pts"
  let ?idx = "snd (rdp_scan fl pts)"
  show ?case
  proof (cases "fst (rdp_scan fl pts) > epsSq")
    case False
    then have r: "rdp fl pts epsSq = Some [pts ! 0, pts ! (?n - 1)]"
      by (subst rdp.simps) simp
    have "\<forall>j. 1 \<le> j \<and> j < ?n - 1 \<longrightarrow>
           distSqToSegment fl (pts ! j) (pts ! 0) (pts ! (?n - 1)) \<le> epsSq"
      using rdp_scan_props(2) [where fl = fl and pts = pts] False by fastforce
    then show ?thesis using r rdp_bound_single [OF less.prems] by simp
  next
    case True
    then have "0 < fst (rdp_scan fl pts)" using assms(1) by linarith
    then have idx: "1 \<le> ?idx" "?idx < ?n - 1" using rdp_scan_props(3) by blast+
    let ?left = "take (?idx + 1) pts"
    let ?right = "drop ?idx (take (?n - 1 + 1) pts)"
    have right: "?right = drop ?idx pts" using less.prems by simp
    have ll: "length ?left = ?idx + 1" using idx by simp
    have lr: "length ?right = ?n - ?idx" using right by simp
    have sl: "length ?left < ?n" "2 \<le> length ?left" using ll idx by linarith+
    have sr: "length ?right < ?n" "2 \<le> length ?right" using lr idx by linarith+
    from less.hyps [OF sl] obtain ys1 where
      1: "rdp fl ?left epsSq = Some ys1" "rdp_bound (distSqToSegment fl) epsSq ?left ys1"
      by blast
    from less.hyps [OF sr] obtain ys2 where
      2: "rdp fl ?right epsSq = Some ys2" "rdp_bound (distSqToSegment fl) epsSq ?right ys2"
      by blast
    have r: "rdp fl pts epsSq = Some (butlast ys1 @ ys2)"
      using True 1(1) 2(1) by (subst rdp.simps) simp
    have "?idx < ?n" using idx by linarith
    then have "last ?left = pts ! ?idx"
      by (simp add: take_Suc_conv_app_nth)
    moreover have "hd ?right = pts ! ?idx"
      unfolding right using idx by (simp add: hd_drop_conv_nth)
    ultimately have "rdp_bound (distSqToSegment fl) epsSq (butlast ?left @ ?right) (butlast ys1 @ ys2)"
      using 1(2) 2(2) by (intro rdp_bound_append) simp_all
    moreover have "butlast ?left @ ?right = pts"
      unfolding right using idx by (simp add: butlast_take)
    ultimately show ?thesis using r by simp
  qed
qed

lemma kept_subseq_join:
  assumes "runs \<noteq> []" and "\<forall>r \<in> set runs. 2 \<le> length r"
  shows "subseq (kept_vertices runs) (join_runs runs)"
  using assms
proof (induction runs rule: join_runs.induct)
  case 1
  then show ?case by simp
next
  case (2 r)
  then have "2 \<le> length r" by simp
  then obtain a r' where "r = a # r'" "r' \<noteq> []" by (cases r) (auto simp: Suc_le_eq)
  moreover from this obtain mid b where "r' = mid @ [b]" by (cases r' rule: rev_cases) auto
  ultimately have r: "r = a # mid @ [b]" by simp
  have "subseq [b] (mid @ [b])" by (simp add: subseq_singleton_left)
  then show ?case by (simp add: kept_vertices_def r)
next
  case (3 r r' rs)
  then have "2 \<le> length r" by simp
  then obtain a r0 where "r = a # r0" "r0 \<noteq> []" by (cases r) (auto simp: Suc_le_eq)
  then have "butlast r = a # butlast r0" "hd r = a" by simp_all
  then obtain rest where r: "butlast r = a # rest" "hd r = a" by blast
  have "subseq (kept_vertices (r' # rs)) (join_runs (r' # rs))" using 3 by simp
  then have "subseq (kept_vertices (r' # rs)) (rest @ join_runs (r' # rs))"
    by (rule subseq_drop_many)
  then show ?case using r by (simp add: kept_vertices_def)
qed

lemma rdp_bound_subseq:
  assumes "rdp_bound dst e pts ys"
  shows "subseq ys pts \<and> set ys \<subseteq> set pts \<and> hd ys = hd pts \<and> last ys = last pts
         \<and> 2 \<le> length ys \<and> length ys \<le> length pts"
proof -
  from assms obtain runs where r: "runs \<noteq> []"
      "\<forall>run \<in> set runs. within_tolerance dst e run" "join_runs runs = pts"
      "kept_vertices runs = ys"
    unfolding rdp_bound_def by blast
  have l: "\<forall>r \<in> set runs. 2 \<le> length r" using r(2) within_tolerance_length by blast
  have s: "subseq ys pts" using kept_subseq_join [OF r(1) l] r by simp
  moreover have "set ys \<subseteq> set pts" using s by (auto elim: list_emb_set)
  moreover have "hd ys = hd pts" "last ys = last pts"
    using join_runs_ends [OF r(1) l] r by (auto simp: kept_vertices_def hd_map hd_append)
  moreover have "2 \<le> length ys" using r(1,4) by (cases runs) (auto simp: kept_vertices_def)
  moreover have "length ys \<le> length pts" using s by (rule list_emb_length)
  ultimately show ?thesis by blast
qed

lemma rdp_bound_mono:
  assumes "rdp_bound dst e pts ys" and "\<And>p a b. dst' p a b \<le> dst p a b"
  shows "rdp_bound dst' e pts ys"
proof -
  have "within_tolerance dst' e run" if "within_tolerance dst e run" for run
    using that assms(2) unfolding within_tolerance_def by (meson order_trans)
  then show ?thesis using assms(1) unfolding rdp_bound_def by blast
qed

lemma perp_le_segment: "perpDistSq p a b \<le> distSqToSegment id p a b"
proof -
  define vx where "vx = pt_x b - pt_x a"
  define vy where "vy = pt_y b - pt_y a"
  define wx where "wx = pt_x p - pt_x a"
  define wy where "wy = pt_y p - pt_y a"
  define c1 where "c1 = vx * wx + vy * wy"
  define c2 where "c2 = vx * vx + vy * vy"
  define cr where "cr = vx * wy - vy * wx"
  have lag: "c1\<^sup>2 + cr\<^sup>2 = c2 * (wx * wx + wy * wy)"
    by (simp add: c1_def cr_def c2_def power2_eq_square algebra_simps)
  have c2n: "0 \<le> c2" by (simp add: c2_def)
  have pd: "perpDistSq p a b = (if c2 = 0 then wx * wx + wy * wy else cr\<^sup>2 / c2)"
    unfolding perpDistSq_def Let_def c2_def cr_def vx_def vy_def wx_def wy_def ..
  show ?thesis
  proof (cases "c2 = 0")
    case True
    then have v: "vx = 0" "vy = 0" by (simp_all add: c2_def sum_squares_eq_zero_iff)
    have "perpDistSq p a b = wx * wx + wy * wy"
      using True by (simp add: pd)
    moreover have "distSqToSegment id p a b = wx * wx + wy * wy"
      using v by (simp add: distSqToSegment_def Let_def sq_def vx_def vy_def wx_def wy_def)
    ultimately show ?thesis by simp
  next
    case False
    then have c2p: "0 < c2" using c2n by simp
    have perp: "perpDistSq p a b = cr\<^sup>2 / c2"
      using False by (simp add: pd)
    have goal: "cr\<^sup>2 \<le> c2 * distSqToSegment id p a b"
    proof -
      consider (before) "c1 \<le> 0" | (after) "0 < c1" "c2 \<le> c1" | (inside) "0 < c1" "c1 < c2"
        by linarith
      then show ?thesis
      proof cases
        case before
        then have "distSqToSegment id p a b = wx * wx + wy * wy"
          by (simp add: distSqToSegment_def Let_def sq_def c1_def vx_def vy_def wx_def wy_def)
        moreover have "cr\<^sup>2 \<le> c2 * (wx * wx + wy * wy)" using lag [symmetric] by simp
        ultimately show ?thesis by simp
      next
        case after
        define ux where "ux = pt_x p - pt_x b"
        define uy where "uy = pt_y p - pt_y b"
        have d: "distSqToSegment id p a b = ux * ux + uy * uy"
          using after
          by (simp add: distSqToSegment_def Let_def sq_def c1_def c2_def vx_def vy_def wx_def
              wy_def ux_def uy_def)
        have u: "ux = wx - vx" "uy = wy - vy"
          by (simp_all add: ux_def uy_def wx_def wy_def vx_def vy_def)
        have "(vx * ux + vy * uy)\<^sup>2 + cr\<^sup>2 = c2 * (ux * ux + uy * uy)"
          by (simp add: u cr_def c2_def power2_eq_square algebra_simps)
        then have "cr\<^sup>2 \<le> c2 * (ux * ux + uy * uy)"
          using zero_le_power2 [of "vx * ux + vy * uy"] by linarith
        then show ?thesis by (simp add: d)
      next
        case inside
        have raw: "distSqToSegment id p a b =
                 (pt_x p - (pt_x a + c1 / c2 * vx)) * (pt_x p - (pt_x a + c1 / c2 * vx))
                 + (pt_y p - (pt_y a + c1 / c2 * vy)) * (pt_y p - (pt_y a + c1 / c2 * vy))"
          using inside
          by (simp add: distSqToSegment_def Let_def sq_def c1_def c2_def vx_def vy_def wx_def
              wy_def)
        have x: "pt_x p - (pt_x a + c1 / c2 * vx) = wx - c1 / c2 * vx" by (simp add: wx_def)
        have y: "pt_y p - (pt_y a + c1 / c2 * vy) = wy - c1 / c2 * vy" by (simp add: wy_def)
        have d: "distSqToSegment id p a b =
                 (wx - c1 / c2 * vx) * (wx - c1 / c2 * vx) + (wy - c1 / c2 * vy) * (wy - c1 / c2 * vy)"
          using raw unfolding x y .
        have e: "vx * wx + vy * wy = c1" "vx * vx + vy * vy = c2"
          by (simp_all add: c1_def c2_def)
        have "c2 * ((wx - c1 / c2 * vx) * (wx - c1 / c2 * vx)
                  + (wy - c1 / c2 * vy) * (wy - c1 / c2 * vy))
              = c2 * (wx * wx + wy * wy) - 2 * c1 * (vx * wx + vy * wy) + c1 * c1 / c2 * (vx * vx + vy * vy)"
          using False by (simp add: field_simps)
        also have "\<dots> = c2 * (wx * wx + wy * wy) - c1\<^sup>2"
          unfolding e using False by (simp add: power2_eq_square)
        also have "\<dots> = cr\<^sup>2" using lag by simp
        finally show ?thesis by (simp add: d)
      qed
    qed
    have "cr\<^sup>2 / c2 \<le> distSqToSegment id p a b"
      using goal c2p by (simp add: pos_divide_le_eq mult.commute)
    then show ?thesis by (simp add: perp)
  qed
qed

text \<open>The simplifier on concrete inputs: in exact arithmetic first.\<close>

lemma scan_nearlyStraight: "rdp_scan id nearlyStraight = (1 / 100, 1)"
  by (simp add: rdp_scan_def nearlyStraight_def pt_def rdp_step_def distSqToSegment_def sq_def
      Let_def upt_rec)

lemma rdp_nearlyStraight: "simplifyRDP id nearlyStraight (1 / 2) = Some [pt 0 0, pt 3 0]"
  unfolding simplifyRDP_def
  by (subst rdp.simps) (simp add: scan_nearlyStraight, simp add: nearlyStraight_def)

text \<open>In double arithmetic, on integers, where no operation rounds.\<close>

lemma scan_overshoot: "rdp_scan double_round overshoot = (2, 1)"
  by (simp add: rdp_scan_def overshoot_def pt_def rdp_step_def distSqToSegment_def sq_def
      Let_def upt_rec double_round_numeral double_round_0 double_round_1)

lemma rdp_overshoot: "simplifyRDP double_round overshoot 2 = Some [pt 0 0, pt 2 0]"
  unfolding simplifyRDP_def
  by (subst rdp.simps)
     (simp add: scan_overshoot double_round_numeral, simp add: overshoot_def)

text \<open>In double arithmetic, with the tolerance 0.9, on a point whose computed squared
  distance \<open>0.8099999999999983\<close> is below the computed \<open>\<epsilon>\<^sup>2\<close> and whose exact squared
  distance \<open>0.8100000000000144\<close> is above it. Each lemma is one rounding of the
  computation.\<close>

lemma rc1: "double_round (9 / 10) = 8106479329266893 / 9007199254740992"
  by (subst double_round_by_ulp [where e = "- 1" and u = "1 / 9007199254740992"])
     (simp_all add: round_even_def powr_minus_divide)

lemma rc2: "double_round (65715007115831415416180825873449 / 81129638414606681695789005144064) = 1823957849085051 / 2251799813685248"
  by (subst double_round_by_ulp [where e = "- 1" and u = "1 / 9007199254740992"])
     (simp_all add: round_even_def powr_minus_divide)

lemma rc3: "double_round (5154427056320563 / 17592186044416) = 5154427056320563 / 17592186044416"
  by (subst double_round_by_ulp [where e = "8" and u = "1 / 17592186044416"])
     (simp_all add: round_even_def powr_minus_divide)

lemma rc4: "double_round (- (1196490275749923 / 4398046511104)) = - (1196490275749923 / 4398046511104)"
  by (subst double_round_by_ulp [where e = "8" and u = "1 / 17592186044416"])
     (simp_all add: round_even_def powr_minus_divide)

lemma rc5: "double_round (3696606449078053 / 17592186044416) = 3696606449078053 / 17592186044416"
  by (subst double_round_by_ulp [where e = "7" and u = "1 / 35184372088832"])
     (simp_all add: round_even_def powr_minus_divide)

lemma rc6: "double_round (- (213171724287321 / 1099511627776)) = - (213171724287321 / 1099511627776)"
  by (subst double_round_by_ulp [where e = "7" and u = "1 / 35184372088832"])
     (simp_all add: round_even_def powr_minus_divide)

lemma rc7: "double_round (19053888297696997892137775903839 / 309485009821345068724781056) = 4230813099347807 / 68719476736"
  by (subst double_round_by_ulp [where e = "15" and u = "1 / 137438953472"])
     (simp_all add: round_even_def powr_minus_divide)

lemma rc8: "double_round (255057895174623261295995626283 / 4835703278458516698824704) = 7249181384583587 / 137438953472"
  by (subst double_round_by_ulp [where e = "15" and u = "1 / 137438953472"])
     (simp_all add: round_even_def powr_minus_divide)

lemma rc9: "double_round (15710807583279201 / 137438953472) = 490962736977475 / 4294967296"
  by (subst double_round_by_ulp [where e = "16" and u = "1 / 68719476736"])
     (simp_all add: round_even_def powr_minus_divide)

lemma rc10: "double_round (26568118278929464336807816636969 / 309485009821345068724781056) = 1474826831711599 / 17179869184"
  by (subst double_round_by_ulp [where e = "16" and u = "1 / 68719476736"])
     (simp_all add: round_even_def powr_minus_divide)

lemma rc11: "double_round (1431588979964126778560034505929 / 19342813113834066795298816) = 5086025751538609 / 68719476736"
  by (subst double_round_by_ulp [where e = "16" and u = "1 / 68719476736"])
     (simp_all add: round_even_def powr_minus_divide)

lemma rc12: "double_round (10985333078385005 / 68719476736) = 2746333269596251 / 17179869184"
  by (subst double_round_by_ulp [where e = "17" and u = "1 / 34359738368"])
     (simp_all add: round_even_def powr_minus_divide)

lemma rc13: "double_round (115520643994700 / 161549015858603) = 6440877729685349 / 9007199254740992"
  by (subst double_round_by_ulp [where e = "- 1" and u = "1 / 9007199254740992"])
     (simp_all add: round_even_def powr_minus_divide)

lemma rc14: "double_round (33199034436342724340063668531487 / 158456325028528675187087900672) = 3685833242655115 / 17592186044416"
  by (subst double_round_by_ulp [where e = "7" and u = "1 / 35184372088832"])
     (simp_all add: round_even_def powr_minus_divide)

lemma rc15: "double_round (3685833242655115 / 17592186044416) = 3685833242655115 / 17592186044416"
  by (subst double_round_by_ulp [where e = "7" and u = "1 / 35184372088832"])
     (simp_all add: round_even_def powr_minus_divide)

lemma rc16: "double_round (- (7706447570862761238159800978127 / 39614081257132168796771975168)) = - (1711175106247689 / 8796093022208)"
  by (subst double_round_by_ulp [where e = "7" and u = "1 / 35184372088832"])
     (simp_all add: round_even_def powr_minus_divide)

lemma rc17: "double_round (- (1711175106247689 / 8796093022208)) = - (1711175106247689 / 8796093022208)"
  by (subst double_round_by_ulp [where e = "7" and u = "1 / 35184372088832"])
     (simp_all add: round_even_def powr_minus_divide)

lemma rc18: "double_round (5386603211469 / 8796093022208) = 5386603211469 / 8796093022208"
  by (subst double_round_by_ulp [where e = "- 1" and u = "1 / 9007199254740992"])
     (simp_all add: round_even_def powr_minus_divide)

lemma rc19: "double_round (29015494157808144333137961 / 77371252455336267181195264) = 1688924045174391 / 4503599627370496"
  by (subst double_round_by_ulp [where e = "- 2" and u = "1 / 18014398509481984"])
     (simp_all add: round_even_def powr_minus_divide)

lemma rc20: "double_round (5801311949121 / 8796093022208) = 5801311949121 / 8796093022208"
  by (subst double_round_by_ulp [where e = "- 1" and u = "1 / 9007199254740992"])
     (simp_all add: round_even_def powr_minus_divide)

lemma rc21: "double_round (33655220331014096092672641 / 77371252455336267181195264) = 7835966611982811 / 18014398509481984"
  by (subst double_round_by_ulp [where e = "- 2" and u = "1 / 18014398509481984"])
     (simp_all add: round_even_def powr_minus_divide)

lemma rc22: "double_round (14591662792680375 / 18014398509481984) = 1823957849085047 / 2251799813685248"
  by (subst double_round_by_ulp [where e = "- 1" and u = "1 / 9007199254740992"])
     (simp_all add: round_even_def powr_minus_divide)

lemmas rounding_case = rc1 rc2 rc3 rc4 rc5 rc6 rc7 rc8 rc9 rc10 rc11 rc12 rc13 rc14 rc15 rc16 rc17 rc18 rc19 rc20 rc21 rc22

lemma dist_roundingCase:
  "distSqToSegment double_round (roundingCase ! 1) (roundingCase ! 0) (roundingCase ! 2) = 1823957849085047 / 2251799813685248"
  by (simp add: roundingCase_def pt_def distSqToSegment_def sq_def Let_def rounding_case double_round_0)

lemma scan_roundingCase: "rdp_scan double_round roundingCase = (1823957849085047 / 2251799813685248, 1)"
  using dist_roundingCase by (simp add: rdp_scan_def rdp_step_def Let_def roundingCase_def)

lemma simplifyRDP_roundingCase:
  "simplifyRDP double_round roundingCase (double_round (9 / 10)) = Some [pt 0 0, roundingCase ! 2]"
  unfolding simplifyRDP_def
  by (subst rdp.simps) (simp add: scan_roundingCase rounding_case, simp add: roundingCase_def)

lemma perp_roundingCase:
  "perpDistSq (roundingCase ! 1) (roundingCase ! 0) (roundingCase ! 2) = 15819092973586358772545726860313380998772945089190263321 / 19529744411834664582044222094891642186557752115432783872"
  by (simp add: perpDistSq_def roundingCase_def pt_def Let_def power2_eq_square)

lemma simplifyRDP_returns:
  assumes "\<And>x. 0 \<le> x \<Longrightarrow> 0 \<le> fl x"
  shows "\<exists>ys. simplifyRDP fl points epsilon = Some ys
        \<and> (3 \<le> length points \<longrightarrow> rdp_bound (distSqToSegment fl) (fl (epsilon * epsilon)) points ys)"
proof (cases "length points < 3")
  case True
  then show ?thesis by (simp add: simplifyRDP_def)
next
  case False
  then have "2 \<le> length points" by simp
  moreover have "0 \<le> fl (epsilon * epsilon)" by (rule assms) simp
  ultimately show ?thesis
    using rdp_returns_bound [of "fl (epsilon * epsilon)" points fl] False
    by (simp add: simplifyRDP_def)
qed

lemma rounding_nonneg:
  assumes "fl = double_round \<or> fl = id" and "0 \<le> x"
  shows "0 \<le> fl x"
proof -
  from assms(1) consider "fl = double_round" | "fl = id" by blast
  then show ?thesis
  proof cases
    case 1
    show ?thesis unfolding 1 using assms(2) by (rule double_round_nonneg)
  next
    case 2
    show ?thesis unfolding 2 using assms(2) by simp
  qed
qed

lemma rdp_bound_two:
  assumes "rdp_bound dst e pts [a, b]"
  shows "within_tolerance dst e pts"
proof -
  from assms obtain runs where r: "runs \<noteq> []"
      "\<forall>run \<in> set runs. within_tolerance dst e run" "join_runs runs = pts"
      "kept_vertices runs = [a, b]"
    unfolding rdp_bound_def by blast
  from r(4) have "length (map hd runs @ [last (last runs)]) = 2"
    by (simp add: kept_vertices_def)
  then have "length runs = 1" by simp
  then obtain run where "runs = [run]" by (cases runs) auto
  then show ?thesis using r(2,3) by simp
qed

text \<open>
  Claim C4, amended. In the double arithmetic of the source and in exact arithmetic
  alike: \<open>simplifyRDP\<close> returns fewer than 3 points unchanged, and it returns on every
  input. Its result is a subsequence of the input, so every point of it is a point of the
  input, in the input's order. On 3 points or more the result starts and ends where the
  input does, and the input splits into runs, one per segment of the result, such that
  every point inside a run that the simplifier dropped is within \<open>\<epsilon>\<^sup>2\<close> of the segment
  joining the ends of the run, in the squared distance to the segment as the code computes
  it, \<open>\<epsilon>\<^sup>2\<close> being the computed product. In exact arithmetic that bounds the squared
  perpendicular distance of every dropped point to the line through its segment (to the
  end point, where the segment is a single point) by \<open>\<epsilon>\<^sup>2\<close>. When a smooth stroke ends,
  \<open>pointerUp\<close> runs the simplifier in double arithmetic with the double \<open>0.9\<close> and stores the
  result in the stroke if the stroke is still the last Op of the document.
\<close>

theorem rdp_simplification:
  "(fl = double_round \<or> fl = id \<longrightarrow>
       (length points < 3 \<longrightarrow> simplifyRDP fl points epsilon = Some points)
     \<and> (\<exists>ys. simplifyRDP fl points epsilon = Some ys)
     \<and> (\<forall>ys. simplifyRDP fl points epsilon = Some ys \<longrightarrow>
           set ys \<subseteq> set points \<and> subseq ys points
           \<and> (3 \<le> length points \<longrightarrow>
                 rdp_bound (distSqToSegment fl) (fl (epsilon * epsilon)) points ys
                 \<and> hd ys = hd points \<and> last ys = last points)))
   \<and> (\<forall>ys. simplifyRDP id points epsilon = Some ys \<and> 3 \<le> length points \<longrightarrow>
         rdp_bound perpDistSq (epsilon * epsilon) points ys)
   \<and> (currentStroke s = Some r \<and> heap s r = Some (Stroke st) \<and> s_smooth st \<longrightarrow>
         (\<exists>ys. simplifyRDP double_round (s_points st) (double_round (9 / 10)) = Some ys
              \<and> pointerUp s =
                  Some (if ops s \<noteq> [] \<and> last (ops s) = r
                        then s\<lparr>isDrawing := False, currentStroke := None,
                               heap := (heap s)(r \<mapsto> Stroke (st\<lparr>s_points := ys\<rparr>))\<rparr>
                        else s\<lparr>isDrawing := False, currentStroke := None\<rparr>)))"
proof (intro conjI allI impI)
  assume f: "fl = double_round \<or> fl = id"
  have nn: "0 \<le> fl x" if "0 \<le> x" for x using f that by (rule rounding_nonneg)
  show "simplifyRDP fl points epsilon = Some points" if "length points < 3"
    using that by (simp add: simplifyRDP_def)
  show "\<exists>ys. simplifyRDP fl points epsilon = Some ys"
    using simplifyRDP_returns [of fl points epsilon] nn by blast
  fix ys assume ys: "simplifyRDP fl points epsilon = Some ys"
  have b: "rdp_bound (distSqToSegment fl) (fl (epsilon * epsilon)) points ys"
    if "3 \<le> length points"
    using simplifyRDP_returns [of fl points epsilon] nn ys that by auto
  have sub: "subseq ys points \<and> set ys \<subseteq> set points"
  proof (cases "length points < 3")
    case True
    then show ?thesis using ys by (simp add: simplifyRDP_def)
  next
    case False
    then show ?thesis using rdp_bound_subseq [OF b] by simp
  qed
  show "set ys \<subseteq> set points" "subseq ys points" using sub by simp_all
  show "rdp_bound (distSqToSegment fl) (fl (epsilon * epsilon)) points ys"
    if "3 \<le> length points"
    using b that .
  show "hd ys = hd points" "last ys = last points" if "3 \<le> length points"
    using rdp_bound_subseq [OF b [OF that]] by simp_all
next
  fix ys
  assume a: "simplifyRDP id points epsilon = Some ys \<and> 3 \<le> length points"
  have "rdp_bound (distSqToSegment id) (id (epsilon * epsilon)) points ys"
    using simplifyRDP_returns [of id points epsilon] a by auto
  then have "rdp_bound (distSqToSegment id) (epsilon * epsilon) points ys" by simp
  then show "rdp_bound perpDistSq (epsilon * epsilon) points ys"
    using perp_le_segment by (rule rdp_bound_mono)
next
  assume a: "currentStroke s = Some r \<and> heap s r = Some (Stroke st) \<and> s_smooth st"
  obtain ys where ys: "simplifyRDP double_round (s_points st) (double_round (9 / 10)) = Some ys"
    using simplifyRDP_returns [of double_round "s_points st" "double_round (9 / 10)"]
      double_round_nonneg by blast
  have "pointerUp s =
         Some (if ops s \<noteq> [] \<and> last (ops s) = r
               then s\<lparr>isDrawing := False, currentStroke := None,
                      heap := (heap s)(r \<mapsto> Stroke (st\<lparr>s_points := ys\<rparr>))\<rparr>
               else s\<lparr>isDrawing := False, currentStroke := None\<rparr>)"
    using a ys by (simp add: pointerUp_def Let_def)
  with ys show "\<exists>ys. simplifyRDP double_round (s_points st) (double_round (9 / 10)) = Some ys
              \<and> pointerUp s =
                  Some (if ops s \<noteq> [] \<and> last (ops s) = r
                        then s\<lparr>isDrawing := False, currentStroke := None,
                               heap := (heap s)(r \<mapsto> Stroke (st\<lparr>s_points := ys\<rparr>))\<rparr>
                        else s\<lparr>isDrawing := False, currentStroke := None\<rparr>)"
    by blast
qed

theorem rdp_simplification_witness:
  "simplifyRDP double_round overshoot 2 = Some [pt 0 0, pt 2 0]
   \<and> 3 \<le> length overshoot
   \<and> set [pt 0 0, pt 2 0] \<subseteq> set overshoot
   \<and> rdp_bound (distSqToSegment double_round) (double_round (2 * 2)) overshoot [pt 0 0, pt 2 0]
   \<and> simplifyRDP id nearlyStraight (1 / 2) = Some [pt 0 0, pt 3 0]
   \<and> 3 \<le> length nearlyStraight
   \<and> rdp_bound perpDistSq (1 / 2 * (1 / 2)) nearlyStraight [pt 0 0, pt 3 0]
   \<and> currentStroke drawing = Some 0 \<and> heap drawing 0 = Some (Stroke (strokeOf roundingCase))
   \<and> s_smooth (strokeOf roundingCase)
   \<and> pointerUp drawing =
        Some (drawing\<lparr>isDrawing := False, currentStroke := None,
                      heap := (heap drawing)(0 \<mapsto> Stroke (strokeOf [pt 0 0, roundingCase ! 2]))\<rparr>)"
proof -
  have o: "simplifyRDP double_round overshoot 2 = Some [pt 0 0, pt 2 0]"
    by (rule rdp_overshoot)
  have n: "simplifyRDP id nearlyStraight (1 / 2) = Some [pt 0 0, pt 3 0]"
    by (rule rdp_nearlyStraight)
  have l: "3 \<le> length overshoot" "3 \<le> length nearlyStraight"
    by (simp_all add: overshoot_def nearlyStraight_def)
  have d: "currentStroke drawing = Some 0 \<and> heap drawing 0 = Some (Stroke (strokeOf roundingCase))
           \<and> s_smooth (strokeOf roundingCase)"
    by (simp add: drawing_def strokeOf_def)
  have od: "ops drawing \<noteq> [] \<and> last (ops drawing) = 0" by (simp add: drawing_def)
  have p: "simplifyRDP double_round (s_points (strokeOf roundingCase)) (double_round (9 / 10))
           = Some [pt 0 0, roundingCase ! 2]"
    using simplifyRDP_roundingCase by (simp add: strokeOf_def)
  have u: "(strokeOf roundingCase)\<lparr>s_points := [pt 0 0, roundingCase ! 2]\<rparr>
           = strokeOf [pt 0 0, roundingCase ! 2]"
    by (simp add: strokeOf_def)
  have dr: "double_round = double_round \<or> double_round = id" by simp
  from rdp_simplification [of double_round overshoot 2 drawing 0 "strokeOf roundingCase"] dr o l
  have 1: "set [pt 0 0, pt 2 0] \<subseteq> set overshoot"
    and 2: "rdp_bound (distSqToSegment double_round) (double_round (2 * 2)) overshoot
              [pt 0 0, pt 2 0]"
    by blast+
  from rdp_simplification [of id nearlyStraight "1 / 2" drawing 0 "strokeOf roundingCase"] n l
  have 3: "rdp_bound perpDistSq (1 / 2 * (1 / 2)) nearlyStraight [pt 0 0, pt 3 0]"
    by blast
  from rdp_simplification [of double_round overshoot 2 drawing 0 "strokeOf roundingCase"] d
  obtain ys where
    "simplifyRDP double_round (s_points (strokeOf roundingCase)) (double_round (9 / 10)) = Some ys"
    and "pointerUp drawing =
         Some (if ops drawing \<noteq> [] \<and> last (ops drawing) = 0
               then drawing\<lparr>isDrawing := False, currentStroke := None,
                      heap := (heap drawing)(0 \<mapsto> Stroke ((strokeOf roundingCase)\<lparr>s_points := ys\<rparr>))\<rparr>
               else drawing\<lparr>isDrawing := False, currentStroke := None\<rparr>)"
    by blast
  then have 4: "pointerUp drawing =
        Some (drawing\<lparr>isDrawing := False, currentStroke := None,
                      heap := (heap drawing)(0 \<mapsto> Stroke (strokeOf [pt 0 0, roundingCase ! 2]))\<rparr>)"
    using od p u by simp
  show ?thesis using o n l d 1 2 3 4 by blast
qed

text \<open>
  Claim C4 as stated, with the perpendicular distance of every discarded point bounded by
  \<open>\<epsilon>\<close>, fails in the double arithmetic of the source. With the tolerance \<open>0.9\<close> the
  simplifier drops the middle point of \<open>roundingCase\<close>: the squared distance it computes,
  \<open>0.8099999999999983\<close>, is below the computed \<open>\<epsilon>\<^sup>2\<close>. The exact squared perpendicular
  distance of that point to the line through the other two is above \<open>0.81\<close>, above the
  square of the double \<open>0.9\<close> and above the computed \<open>\<epsilon>\<^sup>2\<close>.
\<close>

theorem rdp_rounding_counterexample:
  "simplifyRDP double_round roundingCase (double_round (9 / 10))
     = Some [roundingCase ! 0, roundingCase ! 2]
   \<and> roundingCase ! 1 \<notin> set [roundingCase ! 0, roundingCase ! 2]
   \<and> (9 / 10)\<^sup>2 < perpDistSq (roundingCase ! 1) (roundingCase ! 0) (roundingCase ! 2)
   \<and> (double_round (9 / 10))\<^sup>2 < perpDistSq (roundingCase ! 1) (roundingCase ! 0) (roundingCase ! 2)
   \<and> double_round (double_round (9 / 10) * double_round (9 / 10))
       < perpDistSq (roundingCase ! 1) (roundingCase ! 0) (roundingCase ! 2)
   \<and> \<not> rdp_bound perpDistSq ((9 / 10)\<^sup>2) roundingCase [roundingCase ! 0, roundingCase ! 2]"
proof (intro conjI)
  show "simplifyRDP double_round roundingCase (double_round (9 / 10))
     = Some [roundingCase ! 0, roundingCase ! 2]"
    using simplifyRDP_roundingCase by (simp add: roundingCase_def)
  show "roundingCase ! 1 \<notin> set [roundingCase ! 0, roundingCase ! 2]"
    by (simp add: roundingCase_def pt_def)
  show far: "(9 / 10)\<^sup>2 < perpDistSq (roundingCase ! 1) (roundingCase ! 0) (roundingCase ! 2)"
    unfolding perp_roundingCase by (simp add: power2_eq_square)
  show "(double_round (9 / 10))\<^sup>2 < perpDistSq (roundingCase ! 1) (roundingCase ! 0) (roundingCase ! 2)"
    unfolding perp_roundingCase by (simp add: power2_eq_square rounding_case)
  show "double_round (double_round (9 / 10) * double_round (9 / 10))
       < perpDistSq (roundingCase ! 1) (roundingCase ! 0) (roundingCase ! 2)"
    unfolding perp_roundingCase by (simp add: rounding_case)
  show "\<not> rdp_bound perpDistSq ((9 / 10)\<^sup>2) roundingCase [roundingCase ! 0, roundingCase ! 2]"
  proof
    assume "rdp_bound perpDistSq ((9 / 10)\<^sup>2) roundingCase [roundingCase ! 0, roundingCase ! 2]"
    then have "within_tolerance perpDistSq ((9 / 10)\<^sup>2) roundingCase" by (rule rdp_bound_two)
    moreover have "roundingCase ! 1 \<in> set (butlast (tl roundingCase))"
      "hd roundingCase = roundingCase ! 0" "last roundingCase = roundingCase ! 2"
      by (simp_all add: roundingCase_def)
    ultimately have "perpDistSq (roundingCase ! 1) (roundingCase ! 0) (roundingCase ! 2) \<le> (9 / 10)\<^sup>2"
      unfolding within_tolerance_def by metis
    with far show False by simp
  qed
qed

end
